theory Spec2Isabelle
  imports Main "HOL-Library.AList" "HOL-Library.Multiset"
begin

section \<open>Data model\<close>

text \<open>
  Track ids and frame numbers are JavaScript numbers holding integers; they are
  modelled as \<open>int\<close>. GeoJSON geometry (\<open>'g\<close>) and rectangle bounds (\<open>'b\<close>) hold
  floating point coordinates that none of the modelled functions inspects: they are
  type parameters.
\<close>

type_synonym TrackId = int

text \<open>
  The string literal type \<open>EditAnnotationTypes\<close> of vue-media-annotator/layers. Every
  member is a non-empty string, so a value of this type is always truthy.
\<close>

datatype EditAnnotationTypes = Point | rectangle | Polygon | LineString

datatype EventType = in_progress | editing

text \<open>A GeoJSON feature: \<open>{ type, geometry, properties }\<close>.\<close>

record 'g SupportedFeature =
  ftype :: string
  fgeometry :: 'g
  fproperties :: "(string \<times> string) list"

text \<open>The feature of a track at one frame, as handed to \<open>Track.setFeature\<close>.\<close>

record ('g, 'b) Feature =
  frame :: int
  flick :: "int option"
  keyframe :: bool
  bounds :: "'b option"
  interpolate :: "bool option"
  geometry :: "'g SupportedFeature list"

record ('g, 'b) Track =
  trackId :: TrackId
  begin_frame :: int
  end_frame :: int
  features :: "(int \<times> ('g, 'b) Feature) list"
  confidencePairs :: "(string \<times> int) list"

text \<open>
  Every \<open>throw\<close> of the modelled code is one constructor; \<open>message\<close> renders the text
  of the JavaScript \<open>Error\<close>.
\<close>

datatype Error =
    TrackNotFound TrackId string
  | TrackNotFoundAnywhere TrackId
  | DuplicateId TrackId string
  | OverwriteKey string string
  | TypeAlreadySet string
  | SelectedKeyAlreadySet string
  | MissingFromTrackMap TrackId
  | NoSelectedTrack
  | CameraDoesNotExist string
  | NoTrackSelectedForLinking
  | TypeError

definition digit :: "nat \<Rightarrow> char" where
  "digit n = ''0123456789'' ! n"

fun show_nat :: "nat \<Rightarrow> string" where
  "show_nat n = (if n < 10 then [digit n] else show_nat (n div 10) @ [digit (n mod 10)])"

declare show_nat.simps [simp del]

definition show_int :: "int \<Rightarrow> string" where
  "show_int i = (if i < 0 then CHR ''-'' # show_nat (nat (- i)) else show_nat (nat i))"

fun message :: "Error \<Rightarrow> string" where
  "message (TrackNotFound i c) =
     ''TrackId '' @ show_int i @ '' not found in trackMap with cameraName '' @ c"
| "message (TrackNotFoundAnywhere i) = ''TrackId '' @ show_int i @ '' not found in any camera''"
| "message (DuplicateId i c) =
     ''TrackId '' @ show_int i @ '' already exists in camera '' @ c"
| "message (OverwriteKey r k) =
     ''Recipe '' @ r @ '' tried to overwrite key '' @ k @ '' when it was already set''"
| "message (TypeAlreadySet r) =
     ''Recipe '' @ r @ '' tried to modify type when it was already set''"
| "message (SelectedKeyAlreadySet r) =
     ''Recipe '' @ r @ '' tried to modify selectedKey when it was already set''"
| "message (MissingFromTrackMap i) = show_int i @ '' missing from trackMap''"
| "message NoSelectedTrack = ''Cannot call handleUpdateGeojson without a selected Track ID''"
| "message (CameraDoesNotExist c) =
     ''Camera: '' @ c @ '' does not exist in the system for linking''"
| "message NoTrackSelectedForLinking = ''Cannot start Linking without a track selected''"
| "message TypeError = ''Cannot read properties of undefined''"

section \<open>Track store\<close>

text \<open>
  Modelled from the spec: the module useTrackStore is missing from the sources; only
  its test file and its callers in useModeManager are present. The camera map
  \<open>Map<string, Map<TrackId, Track>>\<close> is an association list in insertion order. The
  interval index holds one entry \<open>(begin, end, id)\<close> for each track of each camera;
  the id is stored in its decimal rendering, as the test file reads it back
  (\<open>search([0, 0])\<close> is \<open>['0']\<close>). Ids are assigned from a counter and are not
  reused.
\<close>

type_synonym ('g, 'b) CamMap = "(string \<times> (TrackId \<times> ('g, 'b) Track) list) list"

record ('g, 'b) TrackStore =
  camMap :: "('g, 'b) CamMap"
  intervalTree :: "(int \<times> int \<times> string) list"
  nextTrackId :: TrackId

definition useTrackStore :: "('g, 'b) TrackStore" where
  "useTrackStore = \<lparr> camMap = [(''singleCam'', [])], intervalTree = [], nextTrackId = 0 \<rparr>"

text \<open>
  Modelled from the spec: \<open>getPossibleTrack(id, camera) -> Track?\<close>, the non-throwing
  lookup.
\<close>

definition getPossibleTrack ::
  "('g, 'b) CamMap \<Rightarrow> TrackId \<Rightarrow> string \<Rightarrow> ('g, 'b) Track option" where
  "getPossibleTrack cm tid cameraName =
     (case map_of cm cameraName of
        None \<Rightarrow> None
      | Some trackMap \<Rightarrow> map_of trackMap tid)"

text \<open>
  Modelled from the spec: \<open>getTrack(id, camera) -> Track\<close> fails with NotFound,
  including id and camera in the error, if absent. The message is the one the test
  file expects.
\<close>

definition getTrack ::
  "('g, 'b) CamMap \<Rightarrow> TrackId \<Rightarrow> string \<Rightarrow> Error + ('g, 'b) Track" where
  "getTrack cm tid cameraName =
     (case getPossibleTrack cm tid cameraName of
        None \<Rightarrow> Inl (TrackNotFound tid cameraName)
      | Some t \<Rightarrow> Inr t)"

text \<open>
  Modelled from the spec: \<open>getAllTracksForId(id)\<close> (imported as \<open>getTrackAll\<close>)
  returns one track per camera holding that id.
\<close>

definition getTrackAll :: "('g, 'b) CamMap \<Rightarrow> TrackId \<Rightarrow> ('g, 'b) Track list" where
  "getTrackAll cm tid = List.map_filter (\<lambda>(cameraName, trackMap). map_of trackMap tid) cm"

text \<open>
  Modelled from the spec: \<open>getAnyTrack(id)\<close> returns the track for the id from any
  camera that has it and fails with NotFound if there is none.
\<close>

definition getAnyTrack :: "('g, 'b) CamMap \<Rightarrow> TrackId \<Rightarrow> Error + ('g, 'b) Track" where
  "getAnyTrack cm tid =
     (case getTrackAll cm tid of
        [] \<Rightarrow> Inl (TrackNotFoundAnywhere tid)
      | t # _ \<Rightarrow> Inr t)"

text \<open>
  Modelled from the spec: \<open>addTrack(frame, initialType, camera, afterId?, overrideId?)\<close>
  creates a track spanning the single frame, reusing \<open>overrideId\<close> if supplied, registers
  it in the camera map and in the interval index, and fails with DuplicateId if
  \<open>overrideId\<close> already exists for that camera. \<open>afterId\<close> only positions the track in
  the ordered view, which is not modelled. The test file's first track gets id 0 and
  confidence pair \<open>[type, 1]\<close>.
\<close>

definition newTrack :: "TrackId \<Rightarrow> int \<Rightarrow> string \<Rightarrow> ('g, 'b) Track" where
  "newTrack tid fr ty =
     \<lparr> trackId = tid, begin_frame = fr, end_frame = fr, features = [],
       confidencePairs = [(ty, 1)] \<rparr>"

definition trackMapOf :: "('g, 'b) CamMap \<Rightarrow> string \<Rightarrow> (TrackId \<times> ('g, 'b) Track) list" where
  "trackMapOf cm cameraName = (case map_of cm cameraName of None \<Rightarrow> [] | Some m \<Rightarrow> m)"

definition indexEntry :: "TrackId \<Rightarrow> ('g, 'b) Track \<Rightarrow> int \<times> int \<times> string" where
  "indexEntry tid t = (begin_frame t, end_frame t, show_int tid)"

definition addTrack ::
  "int \<Rightarrow> string \<Rightarrow> TrackId option \<Rightarrow> string \<Rightarrow> TrackId option \<Rightarrow> ('g, 'b) TrackStore
   \<Rightarrow> Error + (('g, 'b) Track \<times> ('g, 'b) TrackStore)" where
  "addTrack fr defaultType afterId cameraName overrideTrackId st =
     (let tid = (case overrideTrackId of Some i \<Rightarrow> i | None \<Rightarrow> nextTrackId st) in
      if overrideTrackId \<noteq> None \<and> getPossibleTrack (camMap st) tid cameraName \<noteq> None
      then Inl (DuplicateId tid cameraName)
      else
        let t = newTrack tid fr defaultType in
        Inr (t, st\<lparr> camMap :=
                      AList.update cameraName
                        (AList.update tid t (trackMapOf (camMap st) cameraName)) (camMap st),
                    intervalTree := intervalTree st @ [indexEntry tid t],
                    nextTrackId := max (nextTrackId st) (tid + 1) \<rparr>))"

text \<open>
  Modelled from the spec: \<open>removeTrack(id, camera)\<close> deletes the track from the camera's
  map and from the interval index and signals NotFound if it is absent. The source
  passes the camera as third argument, after \<open>disableNotifications\<close>; the empty camera
  name, the default of \<open>handleRemoveTrack\<close>, addresses every camera.
\<close>

definition addressed :: "string \<Rightarrow> string \<Rightarrow> bool" where
  "addressed cameraName cam = (cameraName = [] \<or> cameraName = cam)"

definition removedEntries ::
  "TrackId \<Rightarrow> string \<Rightarrow> ('g, 'b) CamMap \<Rightarrow> (int \<times> int \<times> string) list" where
  "removedEntries tid cameraName cm =
     List.map_filter
       (\<lambda>(cam, trackMap).
          if addressed cameraName cam then map_option (indexEntry tid) (map_of trackMap tid)
          else None) cm"

definition deleteFromCameras :: "TrackId \<Rightarrow> string \<Rightarrow> ('g, 'b) CamMap \<Rightarrow> ('g, 'b) CamMap" where
  "deleteFromCameras tid cameraName cm =
     map (\<lambda>(cam, trackMap).
            if addressed cameraName cam then (cam, AList.delete tid trackMap)
            else (cam, trackMap)) cm"

definition removeTrack ::
  "TrackId \<Rightarrow> bool \<Rightarrow> string \<Rightarrow> ('g, 'b) TrackStore \<Rightarrow> Error + ('g, 'b) TrackStore" where
  "removeTrack tid disableNotifications cameraName st =
     (let gone = removedEntries tid cameraName (camMap st) in
      if gone = [] then Inl (TrackNotFound tid cameraName)
      else Inr (st\<lparr> camMap := deleteFromCameras tid cameraName (camMap st),
                    intervalTree := foldr remove1 gone (intervalTree st) \<rparr>))"

text \<open>
  Modelled from the spec: \<open>queryInterval(frameRange)\<close>, the \<open>search\<close> of the interval
  index: the ids of all entries whose inclusive range overlaps the query range.
\<close>

definition intersects :: "int \<times> int \<Rightarrow> int \<times> int \<Rightarrow> bool" where
  "intersects r q = (fst r \<le> snd q \<and> fst q \<le> snd r)"

definition search :: "(int \<times> int \<times> string) list \<Rightarrow> int \<times> int \<Rightarrow> string list" where
  "search tree q = map (\<lambda>(b, e, v). v) (filter (\<lambda>(b, e, v). intersects (b, e) q) tree)"

text \<open>
  Modelled from the spec: every mutation of a track notifies the owning store for index
  maintenance. \<open>replaceTrack\<close> is the store after the track \<open>old\<close>, held by the camera
  under the id, was mutated in place into \<open>new\<close>.
\<close>

definition replaceTrack ::
  "string \<Rightarrow> TrackId \<Rightarrow> ('g, 'b) Track \<Rightarrow> ('g, 'b) Track \<Rightarrow> ('g, 'b) TrackStore
   \<Rightarrow> ('g, 'b) TrackStore" where
  "replaceTrack cameraName tid old new st =
     st\<lparr> camMap :=
           AList.update cameraName
             (AList.update tid new (trackMapOf (camMap st) cameraName)) (camMap st),
         intervalTree := remove1 (indexEntry tid old) (intervalTree st) @ [indexEntry tid new] \<rparr>"

section \<open>Mode manager: state\<close>

text \<open>
  The client settings read by the mode manager (dive-common/store/settings):
  \<open>newTrackSettings.mode\<close>, \<open>newTrackSettings.type\<close>,
  \<open>newTrackSettings.modeSettings.Track.autoAdvanceFrame\<close>,
  \<open>newTrackSettings.modeSettings.Track.interpolate\<close>,
  \<open>newTrackSettings.modeSettings.Detection.continuous\<close> and
  \<open>deletionSettings.promptUser\<close>.
\<close>

datatype NewTrackMode = TrackMode | DetectionMode

record TrackSettings =
  newTrackSettings_mode :: NewTrackMode
  newTrackSettings_type :: string
  track_autoAdvanceFrame :: bool
  track_interpolate :: bool
  detection_continuous :: bool
  deletionSettings_promptUser :: bool

text \<open>
  What \<open>recipe.update\<close> returns. \<open>data\<close> is a JavaScript object, kept as the list of
  its own properties in enumeration order; absent optional fields are \<open>None\<close>.
\<close>

record 'g RecipeChanges =
  ch_data :: "(string \<times> 'g SupportedFeature list) list"
  ch_union :: "'g list"
  ch_unionWithoutBounds :: "'g list"
  ch_newType :: "EditAnnotationTypes option"
  ch_newSelectedKey :: "string option"
  ch_done :: "bool option"

text \<open>
  A recipe: its name, its \<open>active\<close> flag and its \<open>update\<close> method, which by the
  recipe contract returns its changes and writes nothing itself.
\<close>

record ('g, 'b) Recipe =
  recipe_name :: string
  recipe_active :: bool
  recipe_update ::
    "EventType \<Rightarrow> int \<Rightarrow> ('g, 'b) Track \<Rightarrow> 'g SupportedFeature list \<Rightarrow> string option
     \<Rightarrow> 'g RecipeChanges"

text \<open>The calls of the external \<open>prompt\<close> service, by title.\<close>

datatype Prompt = LinkingError TrackId string | DeleteConfirmation "TrackId list"

text \<open>
  The mutable state the mode manager closes over: the refs handed to
  \<open>useModeManager\<close> (selection, camera, editing flag, the store behind \<open>camMap\<close>, the
  playback frame, the recipes), its own refs, and a log of the calls made to the
  external prompt service and to the \<open>preventInterrupt\<close> callback.
\<close>

record ('g, 'b) State =
  store :: "('g, 'b) TrackStore"
  selectedTrackId :: "TrackId option"
  selectedCamera :: string
  editingTrack :: bool
  current_frame :: int
  recipes :: "('g, 'b) Recipe list"
  trackSettings :: TrackSettings
  creating :: bool
  annotationModes_editing :: EditAnnotationTypes
  selectedFeatureHandle :: int
  selectedKey :: string
  editingCanary :: bool
  mergeList :: "TrackId list"
  linkingState :: bool
  linkingTrack :: "TrackId option"
  linkingCamera :: string
  prompts :: "Prompt list"
  preventInterruptCalls :: nat

text \<open>
  The methods of class Track and the helpers whose implementation is not in the
  sources are parameters of the model: \<open>Track.getFeature\<close>, \<open>Track.canInterpolate\<close>,
  \<open>Track.setFeature\<close> and \<open>Track.merge\<close> (the last two return the mutated track),
  \<open>updateBounds\<close> of vue-media-annotator/utils, the frame the playback controller is at
  after \<open>nextFrame()\<close>, and the injected query \<open>selectNextTrack(delta)\<close>.
\<close>

record ('g, 'b) Deps =
  getFeature :: "('g, 'b) Track \<Rightarrow> int \<Rightarrow> ('g, 'b) Feature option list"
  canInterpolate :: "('g, 'b) Track \<Rightarrow> int \<Rightarrow> ('g, 'b) Feature option list \<times> bool"
  setFeature ::
    "('g, 'b) Track \<Rightarrow> ('g, 'b) Feature \<Rightarrow> 'g SupportedFeature list \<Rightarrow> ('g, 'b) Track"
  merge :: "('g, 'b) Track \<Rightarrow> ('g, 'b) Track list \<Rightarrow> ('g, 'b) Track"
  updateBounds :: "'b option \<Rightarrow> 'g list \<Rightarrow> 'g list \<Rightarrow> 'b"
  nextFrame :: "int \<Rightarrow> int"
  selectNextTrack :: "('g, 'b) State \<Rightarrow> int \<Rightarrow> TrackId option"

definition mergeInProgress :: "('g, 'b) State \<Rightarrow> bool" where
  "mergeInProgress s = (length (mergeList s) > 0)"

text \<open>
  Modelled from the spec: the injected \<open>selectTrack(trackId, edit)\<close> of the selection
  controls sets the selection and the editing flag.
\<close>

definition selectTrack :: "TrackId option \<Rightarrow> bool \<Rightarrow> ('g, 'b) State \<Rightarrow> ('g, 'b) State" where
  "selectTrack tid edit s = s\<lparr> selectedTrackId := tid, editingTrack := edit \<rparr>"

text \<open>The injected \<open>removeTrack\<close> and \<open>addTrack\<close> act on the store of the session.\<close>

definition removeTrackS ::
  "TrackId \<Rightarrow> bool \<Rightarrow> string \<Rightarrow> ('g, 'b) State \<Rightarrow> Error option \<times> ('g, 'b) State" where
  "removeTrackS tid disableNotifications cameraName s =
     (case removeTrack tid disableNotifications cameraName (store s) of
        Inl e \<Rightarrow> (Some e, s)
      | Inr st \<Rightarrow> (None, s\<lparr> store := st \<rparr>))"

section \<open>Mode manager: selection, escape, linking\<close>

text \<open>\<open>_setLinkingTrack\<close>: the prompt is not awaited.\<close>

definition setLinkingTrack :: "TrackId \<Rightarrow> ('g, 'b) State \<Rightarrow> ('g, 'b) State" where
  "setLinkingTrack tid s =
     (let trackList = getTrackAll (camMap (store s)) tid in
      if length trackList > 1
      then s\<lparr> prompts := prompts s @ [LinkingError tid (linkingCamera s)] \<rparr>
      else s\<lparr> linkingTrack := Some tid \<rparr>)"

text \<open>
  \<open>Array.from(new Set(list).add(id))\<close>: a Set keeps the first occurrence of each
  element in insertion order, and \<open>add\<close> appends an element that is not yet a member.
\<close>

definition setAdd :: "'a list \<Rightarrow> 'a \<Rightarrow> 'a list" where
  "setAdd xs x = (let u = rev (remdups (rev xs)) in if x \<in> set u then u else u @ [x])"

text \<open>
  \<open>handleSelectTrack\<close>. Its first statement leaves creating mode, or stays in it. The
  merge branch has no \<open>return\<close> and goes on to the final \<open>selectTrack\<close>; the linking
  branch returns.
\<close>

definition leaveCreating :: "TrackId option \<Rightarrow> bool \<Rightarrow> ('g, 'b) State \<Rightarrow> ('g, 'b) State" where
  "leaveCreating tid edit s =
     (if \<not> (creating s \<and> edit \<and> tid = selectedTrackId s)
      then s\<lparr> creating := False \<rparr> else s)"

definition handleSelectTrack ::
  "TrackId option \<Rightarrow> bool \<Rightarrow> ('g, 'b) State \<Rightarrow> ('g, 'b) State" where
  "handleSelectTrack tid edit s =
     (let s1 = leaveCreating tid edit s in
      if tid \<noteq> None \<and> mergeInProgress s1 then
        (let s2 = (case tid of
                     Some t \<Rightarrow> s1\<lparr> mergeList := setAdd (mergeList s1) t \<rparr>
                   | None \<Rightarrow> s1)
         in selectTrack tid (edit \<and> \<not> mergeInProgress s2) s2)
      else if linkingState s1 then
        (case tid of Some t \<Rightarrow> setLinkingTrack t s1 | None \<Rightarrow> s1)
      else selectTrack tid (edit \<and> \<not> mergeInProgress s1) s1)"

definition handleEscapeMode ::
  "('g, 'b) Deps \<Rightarrow> ('g, 'b) State \<Rightarrow> Error option \<times> ('g, 'b) State" where
  "handleEscapeMode deps s =
     (let r =
        (case selectedTrackId s of
           None \<Rightarrow> (None, s)
         | Some tid \<Rightarrow>
             (case getPossibleTrack (camMap (store s)) tid (selectedCamera s) of
                None \<Rightarrow> (None, s)
              | Some track \<Rightarrow>
                  if begin_frame track = end_frame track then
                    (let fs = getFeature deps track (begin_frame track) in
                     if length (filter (\<lambda>item. item \<noteq> None) fs) = 0
                     then removeTrackS tid True (selectedCamera s) s
                     else (None, s))
                  else (None, s)))
      in case r of
           (Some e, s1) \<Rightarrow> (Some e, s1)
         | (None, s1) \<Rightarrow>
             (None, handleSelectTrack None False
                      (s1\<lparr> linkingState := False, linkingCamera := [],
                           linkingTrack := None, mergeList := [] \<rparr>)))"

definition handleStartLinking ::
  "string \<Rightarrow> ('g, 'b) State \<Rightarrow> Error option \<times> ('g, 'b) State" where
  "handleStartLinking camera s =
     (if \<not> linkingState s \<and> selectedTrackId s \<noteq> None then
        (let s1 = s\<lparr> linkingState := True \<rparr> in
         if map_of (camMap (store s1)) camera \<noteq> None
         then (None, s1\<lparr> linkingCamera := camera \<rparr>)
         else (Some (CameraDoesNotExist camera), s1))
      else if selectedTrackId s = None then (Some NoTrackSelectedForLinking, s)
      else (None, s))"

definition handleStopLinking :: "('g, 'b) State \<Rightarrow> ('g, 'b) State" where
  "handleStopLinking s = s\<lparr> linkingState := False, linkingTrack := None, linkingCamera := [] \<rparr>"

section \<open>Mode manager: creating tracks\<close>

text \<open>
  \<open>handleAddTrackOrDetection\<close>. \<open>selectedTrackId.value || undefined\<close> is undefined for
  no selection and for the id 0; \<open>track.confidencePairs[0][0]\<close> throws a TypeError on
  an empty list.
\<close>

definition orUndefined :: "TrackId option \<Rightarrow> TrackId option" where
  "orUndefined v = (case v of None \<Rightarrow> None | Some i \<Rightarrow> if i = 0 then None else Some i)"

definition handleAddTrackOrDetection ::
  "TrackId option \<Rightarrow> ('g, 'b) State \<Rightarrow> (Error + TrackId) \<times> ('g, 'b) State" where
  "handleAddTrackOrDetection overrideTrackId s =
     (let trackType =
        (case overrideTrackId of
           None \<Rightarrow> Inr (newTrackSettings_type (trackSettings s))
         | Some ov \<Rightarrow>
             (case getAnyTrack (camMap (store s)) ov of
                Inl e \<Rightarrow> Inl e
              | Inr track \<Rightarrow>
                  (case confidencePairs track of
                     [] \<Rightarrow> Inl TypeError
                   | p # _ \<Rightarrow> Inr (fst p))))
      in case trackType of
           Inl e \<Rightarrow> (Inl e, s)
         | Inr ty \<Rightarrow>
             (case addTrack (current_frame s) ty (orUndefined (selectedTrackId s))
                     (selectedCamera s) overrideTrackId (store s) of
                Inl e \<Rightarrow> (Inl e, s)
              | Inr (t, st) \<Rightarrow>
                  (Inr (trackId t),
                   (selectTrack (Some (trackId t)) True (s\<lparr> store := st \<rparr>))
                     \<lparr> creating := True \<rparr>)))"

text \<open>
  \<open>newTrackSettingsAfterLogic\<close>, the post-add-advance logic. Its argument
  \<open>addedTrack\<close> is always a track and \<open>newTrackSettings\<close> is never null, so the inner
  test holds whenever \<open>creating\<close> does. The editing canary is nudged on every run that
  completes.
\<close>

definition nudgeEditingCanary :: "('g, 'b) State \<Rightarrow> ('g, 'b) State" where
  "nudgeEditingCanary s = s\<lparr> editingCanary := \<not> editingCanary s \<rparr>"

definition newTrackSettingsAfterLogic ::
  "('g, 'b) Deps \<Rightarrow> ('g, 'b) State \<Rightarrow> Error option \<times> ('g, 'b) State" where
  "newTrackSettingsAfterLogic deps s =
     (let r =
        (if creating s then
           (if newTrackSettings_mode (trackSettings s) = TrackMode
               \<and> track_autoAdvanceFrame (trackSettings s)
            then (None, True, s\<lparr> current_frame := nextFrame deps (current_frame s) \<rparr>)
            else if newTrackSettings_mode (trackSettings s) = DetectionMode then
              (if detection_continuous (trackSettings s) then
                 (case handleAddTrackOrDetection None s of
                    (Inl e, s1) \<Rightarrow> (Some e, False, s1)
                  | (Inr _, s1) \<Rightarrow> (None, True, s1))
               else (None, False, s))
            else (None, False, s))
         else (None, False, s))
      in case r of
           (Some e, _, s1) \<Rightarrow> (Some e, s1)
         | (None, newCreatingValue, s1) \<Rightarrow>
             (None, (nudgeEditingCanary s1)\<lparr> creating := newCreatingValue \<rparr>))"

section \<open>Mode manager: geometry updates\<close>

text \<open>
  The aggregate \<open>update\<close> collector of \<open>handleUpdateGeoJSON\<close>. The record of geometry is
  created as \<open>{}\<close>, so \<open>key in record\<close> also holds for every property name it inherits
  from \<open>Object.prototype\<close>.
\<close>

record 'g Update =
  up_geoJsonFeatureRecord :: "(string \<times> 'g SupportedFeature list) list"
  up_union :: "'g list"
  up_unionWithoutBounds :: "'g list"
  up_newType :: "EditAnnotationTypes option"
  up_newSelectedKey :: "string option"
  up_done :: "bool option list"

definition emptyUpdate :: "'g Update" where
  "emptyUpdate =
     \<lparr> up_geoJsonFeatureRecord = [], up_union = [], up_unionWithoutBounds = [],
       up_newType = None, up_newSelectedKey = None, up_done = [] \<rparr>"

definition objectPrototypeKeys :: "string list" where
  "objectPrototypeKeys =
     [''constructor'', ''__defineGetter__'', ''__defineSetter__'', ''hasOwnProperty'',
      ''__lookupGetter__'', ''__lookupSetter__'', ''isPrototypeOf'',
      ''propertyIsEnumerable'', ''toString'', ''valueOf'', ''__proto__'',
      ''toLocaleString'']"

definition keyIn :: "string \<Rightarrow> (string \<times> 'v) list \<Rightarrow> bool" where
  "keyIn k obj = (k \<in> set (map fst obj) \<or> k \<in> set objectPrototypeKeys)"

text \<open>
  \<open>Object.assign(target, source)\<close> on association lists. New keys are appended in the
  order of the source; that JavaScript enumerates integer-like keys first is not
  modelled, which only bears on the order of the shapes handed to \<open>setFeature\<close>.
\<close>

definition objectAssign :: "(string \<times> 'v) list \<Rightarrow> (string \<times> 'v) list \<Rightarrow> (string \<times> 'v) list" where
  "objectAssign target source = fold (\<lambda>(k, v). AList.update k v) source target"

text \<open>An optional string is truthy when it is present and not empty.\<close>

definition truthy :: "string option \<Rightarrow> bool" where
  "truthy v = (case v of None \<Rightarrow> False | Some x \<Rightarrow> x \<noteq> [])"

text \<open>The body of the loop over the recipes, after \<open>recipe.update\<close> returned.\<close>

definition applyChanges :: "string \<Rightarrow> 'g RecipeChanges \<Rightarrow> 'g Update \<Rightarrow> Error + 'g Update" where
  "applyChanges rname changes upd =
     (case find (\<lambda>k. keyIn k (up_geoJsonFeatureRecord upd)) (map fst (ch_data changes)) of
        Some k \<Rightarrow> Inl (OverwriteKey rname k)
      | None \<Rightarrow>
          (let upd1 = upd\<lparr>
                 up_geoJsonFeatureRecord :=
                   objectAssign (up_geoJsonFeatureRecord upd) (ch_data changes),
                 up_union := up_union upd @ ch_union changes,
                 up_unionWithoutBounds :=
                   up_unionWithoutBounds upd @ ch_unionWithoutBounds changes,
                 up_done := up_done upd @ [ch_done changes] \<rparr>;
               r = (case ch_newType changes of
                      None \<Rightarrow> Inr upd1
                    | Some ty \<Rightarrow>
                        if up_newType upd1 \<noteq> None then Inl (TypeAlreadySet rname)
                        else Inr (upd1\<lparr> up_newType := Some ty \<rparr>))
           in case r of
                Inl e \<Rightarrow> Inl e
              | Inr upd2 \<Rightarrow>
                  if truthy (ch_newSelectedKey changes) then
                    (if truthy (up_newSelectedKey upd2)
                     then Inl (SelectedKeyAlreadySet rname)
                     else Inr (upd2\<lparr> up_newSelectedKey := ch_newSelectedKey changes \<rparr>))
                  else Inr upd2))"

fun forEachRecipe ::
  "('g, 'b) Recipe list \<Rightarrow> EventType \<Rightarrow> int \<Rightarrow> ('g, 'b) Track \<Rightarrow> 'g SupportedFeature
   \<Rightarrow> string option \<Rightarrow> 'g Update \<Rightarrow> Error + 'g Update" where
  "forEachRecipe [] eventType frameNum track d key upd = Inr upd"
| "forEachRecipe (recipe # rs) eventType frameNum track d key upd =
     (case applyChanges (recipe_name recipe)
             (recipe_update recipe eventType frameNum track [d] key) upd of
        Inl e \<Rightarrow> Inl e
      | Inr upd1 \<Rightarrow> forEachRecipe rs eventType frameNum track d key upd1)"

definition somethingChanged :: "'g Update \<Rightarrow> bool" where
  "somethingChanged upd =
     (length (up_union upd) \<noteq> 0
      \<or> length (up_unionWithoutBounds upd) \<noteq> 0
      \<or> length (up_geoJsonFeatureRecord upd) \<noteq> 0)"

text \<open>\<open>recipe.deactivate()\<close>. Modelled from the spec: it clears the active flag.\<close>

definition deactivate :: "('g, 'b) Recipe \<Rightarrow> ('g, 'b) Recipe" where
  "deactivate r = r\<lparr> recipe_active := False \<rparr>"

text \<open>The shapes written with the feature: one per geometry, tagged with its key.\<close>

definition flatGeometry ::
  "(string \<times> 'g SupportedFeature list) list \<Rightarrow> 'g SupportedFeature list" where
  "flatGeometry obj =
     concat (map (\<lambda>(key, geomlist).
                    map (\<lambda>geom. \<lparr> ftype = ftype geom, fgeometry = fgeometry geom,
                                  fproperties = [(''key'', key)] \<rparr>) geomlist) obj)"

text \<open>The mode and key switch, or the \<open>preventInterrupt\<close> callback in its place.\<close>

definition applyModeSwitch :: "bool \<Rightarrow> 'g Update \<Rightarrow> ('g, 'b) State \<Rightarrow> ('g, 'b) State" where
  "applyModeSwitch preventInterrupt upd s =
     (if somethingChanged upd \<and> \<not> truthy (up_newSelectedKey upd) \<and> up_newType upd = None
         \<and> preventInterrupt
      then s\<lparr> preventInterruptCalls := Suc (preventInterruptCalls s) \<rparr>
      else
        (let s1 = (case up_newSelectedKey upd of
                     Some k \<Rightarrow> if k \<noteq> [] then s\<lparr> selectedKey := k \<rparr> else s
                   | None \<Rightarrow> s)
         in case up_newType upd of
              Some ty \<Rightarrow> s1\<lparr> annotationModes_editing := ty,
                             recipes := map deactivate (recipes s1) \<rparr>
            | None \<Rightarrow> s1))"

text \<open>
  The track after the \<open>track.setFeature\<close> call of \<open>handleUpdateGeoJSON\<close>:
  \<open>canInterpolate\<close> is read before the recipes run and gives \<open>real\<close>, the first of its
  features, and \<open>interpolate\<close>.
\<close>

definition updatedTrack ::
  "('g, 'b) Deps \<Rightarrow> ('g, 'b) Track \<Rightarrow> int \<Rightarrow> int \<Rightarrow> 'g Update \<Rightarrow> ('g, 'b) Track" where
  "updatedTrack deps track frameNum flickNum upd =
     (let (feats, interp) = canInterpolate deps track frameNum;
          real = (case feats of [] \<Rightarrow> None | f # _ \<Rightarrow> f)
      in setFeature deps track
           \<lparr> frame = frameNum, flick = Some flickNum, keyframe = True,
             bounds = Some (updateBounds deps
                        (case real of None \<Rightarrow> None | Some f \<Rightarrow> bounds f)
                        (up_union upd) (up_unionWithoutBounds upd)),
             interpolate = Some interp, geometry = [] \<rparr>
           (flatGeometry (up_geoJsonFeatureRecord upd)))"

definition handleUpdateGeoJSON ::
  "('g, 'b) Deps \<Rightarrow> EventType \<Rightarrow> int \<Rightarrow> int \<Rightarrow> 'g SupportedFeature \<Rightarrow> string option \<Rightarrow> bool
   \<Rightarrow> ('g, 'b) State \<Rightarrow> Error option \<times> ('g, 'b) State" where
  "handleUpdateGeoJSON deps eventType frameNum flickNum d key preventInterrupt s =
     (case selectedTrackId s of
        None \<Rightarrow> (Some NoSelectedTrack, s)
      | Some tid \<Rightarrow>
          (case getPossibleTrack (camMap (store s)) tid (selectedCamera s) of
             None \<Rightarrow> (Some (MissingFromTrackMap tid), s)
           | Some track \<Rightarrow>
               (case forEachRecipe (recipes s) eventType frameNum track d key emptyUpdate of
                  Inl e \<Rightarrow> (Some e, s)
                | Inr upd \<Rightarrow>
                    (let s1 = applyModeSwitch preventInterrupt upd s in
                     if somethingChanged upd then
                       (let s2 = s1\<lparr> store :=
                                   replaceTrack (selectedCamera s1) tid track
                                     (updatedTrack deps track frameNum flickNum upd)
                                     (store s1) \<rparr>
                        in if eventType = editing
                              \<or> list_all (\<lambda>v. v \<noteq> Some False) (up_done upd)
                           then newTrackSettingsAfterLogic deps s2
                           else (None, s2))
                     else (None, s1)))))"

section \<open>Mode manager: removing and merging tracks\<close>

definition handleUnstageFromMerge :: "TrackId list \<Rightarrow> ('g, 'b) State \<Rightarrow> ('g, 'b) State" where
  "handleUnstageFromMerge trackIds s =
     s\<lparr> mergeList := filter (\<lambda>tid. tid \<notin> set trackIds) (mergeList s) \<rparr>"

text \<open>\<open>trackIds.forEach((trackId) => removeTrack(trackId, false, cameraName))\<close>.\<close>

fun removeTracks ::
  "TrackId list \<Rightarrow> string \<Rightarrow> ('g, 'b) State \<Rightarrow> Error option \<times> ('g, 'b) State" where
  "removeTracks [] cameraName s = (None, s)"
| "removeTracks (tid # tids) cameraName s =
     (case removeTrackS tid False cameraName s of
        (Some e, s1) \<Rightarrow> (Some e, s1)
      | (None, s1) \<Rightarrow> removeTracks tids cameraName s1)"

text \<open>
  \<open>handleRemoveTrack\<close> is an async function: an error raised inside it rejects the
  promise it returns and is not thrown to the caller. \<open>answer\<close> is the user's reply to
  the confirmation prompt, which is only shown, and awaited, when the prompt is not
  disabled.
\<close>

definition handleRemoveTrack ::
  "('g, 'b) Deps \<Rightarrow> TrackId list \<Rightarrow> bool \<Rightarrow> string \<Rightarrow> bool \<Rightarrow> ('g, 'b) State
   \<Rightarrow> Error option \<times> ('g, 'b) State" where
  "handleRemoveTrack deps trackIds forcePromptDisable cameraName answer s =
     (let maybeNextTrackId = selectNextTrack deps s 1;
          previousOrNext = (case maybeNextTrackId of
                              Some n \<Rightarrow> Some n
                            | None \<Rightarrow> selectNextTrack deps s (- 1));
          asked = (\<not> forcePromptDisable \<and> deletionSettings_promptUser (trackSettings s));
          s1 = (if asked then s\<lparr> prompts := prompts s @ [DeleteConfirmation trackIds] \<rparr>
                else s)
      in if asked \<and> \<not> answer then (None, s1)
         else
           (case removeTracks trackIds cameraName s1 of
              (Some e, s2) \<Rightarrow> (Some e, s2)
            | (None, s2) \<Rightarrow>
                (let s3 = handleUnstageFromMerge trackIds s2 in
                 (None, if cameraName = [] then selectTrack previousOrNext False s3 else s3))))"

text \<open>\<open>handleToggleMerge\<close>; the list it returns is the merge list of the new state.\<close>

definition handleToggleMerge :: "('g, 'b) State \<Rightarrow> ('g, 'b) State" where
  "handleToggleMerge s =
     (case (mergeInProgress s, selectedTrackId s) of
        (False, Some tid) \<Rightarrow> selectTrack (Some tid) False (s\<lparr> mergeList := [tid] \<rparr>)
      | _ \<Rightarrow> s\<lparr> mergeList := [] \<rparr>)"

text \<open>\<open>otherTrackIds.map((trackId) => getTrack(camMap, trackId, selectedCamera.value))\<close>.\<close>

fun getTracks ::
  "('g, 'b) CamMap \<Rightarrow> TrackId list \<Rightarrow> string \<Rightarrow> Error + ('g, 'b) Track list" where
  "getTracks cm [] cameraName = Inr []"
| "getTracks cm (tid # tids) cameraName =
     (case getTrack cm tid cameraName of
        Inl e \<Rightarrow> Inl e
      | Inr t \<Rightarrow>
          (case getTracks cm tids cameraName of
             Inl e \<Rightarrow> Inl e
           | Inr ts \<Rightarrow> Inr (t # ts)))"

text \<open>
  \<open>handleCommitMerge\<close>. The call of \<open>handleRemoveTrack\<close> disables the prompt, so it runs
  to its end before \<open>handleToggleMerge\<close>; a rejection of its promise is dropped.
\<close>

definition handleCommitMerge ::
  "('g, 'b) Deps \<Rightarrow> ('g, 'b) State \<Rightarrow> Error option \<times> ('g, 'b) State" where
  "handleCommitMerge deps s =
     (if length (mergeList s) \<ge> 2 then
        (case mergeList s of
           [] \<Rightarrow> (None, s)
         | first # otherTrackIds \<Rightarrow>
             (case getTrack (camMap (store s)) first (selectedCamera s) of
                Inl e \<Rightarrow> (Some e, s)
              | Inr track \<Rightarrow>
                  (case getTracks (camMap (store s)) otherTrackIds (selectedCamera s) of
                     Inl e \<Rightarrow> (Some e, s)
                   | Inr others \<Rightarrow>
                       (let merged = merge deps track others;
                            s1 = s\<lparr> store :=
                                   replaceTrack (selectedCamera s) first track merged
                                     (store s) \<rparr>;
                            s2 = snd (handleRemoveTrack deps otherTrackIds True [] False s1);
                            s3 = handleToggleMerge s2
                        in (None, handleSelectTrack (Some (trackId merged)) False s3)))))
      else (None, s))"

section \<open>Notions used by the properties\<close>

text \<open>
  The failures of a geometry update that the specification calls Conflict: a recipe
  writes a key that is already set, or the type or the selected key is set twice.
\<close>

definition isConflict :: "Error \<Rightarrow> bool" where
  "isConflict e =
     (case e of
        OverwriteKey _ _ \<Rightarrow> True
      | TypeAlreadySet _ \<Rightarrow> True
      | SelectedKeyAlreadySet _ \<Rightarrow> True
      | _ \<Rightarrow> False)"

text \<open>What the recipes of the session return for one geometry update, in order.\<close>

definition recipeChanges ::
  "('g, 'b) State \<Rightarrow> EventType \<Rightarrow> int \<Rightarrow> ('g, 'b) Track \<Rightarrow> 'g SupportedFeature \<Rightarrow> string option
   \<Rightarrow> 'g RecipeChanges list" where
  "recipeChanges s eventType frameNum track d key =
     map (\<lambda>r. recipe_update r eventType frameNum track [d] key) (recipes s)"

definition keysOf :: "'g RecipeChanges \<Rightarrow> string set" where
  "keysOf c = set (map fst (ch_data c))"

text \<open>
  Two recipes conflict when they write a common key, when both set \<open>newType\<close>, or when
  both set a non-empty \<open>newSelectedKey\<close>.
\<close>

definition conflicting :: "'g RecipeChanges \<Rightarrow> 'g RecipeChanges \<Rightarrow> bool" where
  "conflicting a b =
     (keysOf a \<inter> keysOf b \<noteq> {}
      \<or> (ch_newType a \<noteq> None \<and> ch_newType b \<noteq> None)
      \<or> (truthy (ch_newSelectedKey a) \<and> truthy (ch_newSelectedKey b)))"

text \<open>A recipe contributes a change when its data, union or unionWithoutBounds is not empty.\<close>

definition contributes :: "'g RecipeChanges \<Rightarrow> bool" where
  "contributes c = (ch_data c \<noteq> [] \<or> ch_union c \<noteq> [] \<or> ch_unionWithoutBounds c \<noteq> [])"

text \<open>A recipe's changes clash with the collector when the loop body throws on them.\<close>

definition clash :: "'g RecipeChanges \<Rightarrow> 'g Update \<Rightarrow> bool" where
  "clash c upd =
     ((\<exists>k \<in> keysOf c. keyIn k (up_geoJsonFeatureRecord upd))
      \<or> (ch_newType c \<noteq> None \<and> up_newType upd \<noteq> None)
      \<or> (truthy (ch_newSelectedKey c) \<and> truthy (up_newSelectedKey upd)))"

text \<open>The collector after a recipe's changes were taken in without a throw.\<close>

definition absorb :: "'g RecipeChanges \<Rightarrow> 'g Update \<Rightarrow> 'g Update" where
  "absorb c upd =
     \<lparr> up_geoJsonFeatureRecord = objectAssign (up_geoJsonFeatureRecord upd) (ch_data c),
       up_union = up_union upd @ ch_union c,
       up_unionWithoutBounds = up_unionWithoutBounds upd @ ch_unionWithoutBounds c,
       up_newType = (case ch_newType c of None \<Rightarrow> up_newType upd | Some ty \<Rightarrow> Some ty),
       up_newSelectedKey =
         (if truthy (ch_newSelectedKey c) then ch_newSelectedKey c else up_newSelectedKey upd),
       up_done = up_done upd @ [ch_done c] \<rparr>"

text \<open>
  A track is empty, in the sense of \<open>handleEscapeMode\<close>, when it spans one frame and
  \<open>getFeature\<close> has no feature to report there.
\<close>

definition emptyOnCamera :: "('g, 'b) Deps \<Rightarrow> ('g, 'b) Track \<Rightarrow> bool" where
  "emptyOnCamera deps track =
     (begin_frame track = end_frame track
      \<and> filter (\<lambda>item. item \<noteq> None) (getFeature deps track (begin_frame track)) = [])"

text \<open>A recipe asks for a mode or key switch when it sets the type or a non-empty key.\<close>

definition setsMode :: "'g RecipeChanges \<Rightarrow> bool" where
  "setsMode c = (ch_newType c \<noteq> None \<or> truthy (ch_newSelectedKey c))"

text \<open>
  The index entries the tracks of a camera map call for, one per track and camera; the
  invariant of the store: the interval index holds exactly these entries, cameras and
  ids are unique within their maps, and every id is below the id counter; and the ids
  of the tracks present on some camera whose inclusive range intersects a query range.
\<close>

definition trackEntries :: "(TrackId \<times> ('g, 'b) Track) list \<Rightarrow> (int \<times> int \<times> string) list" where
  "trackEntries trackMap = map (\<lambda>(tid, t). indexEntry tid t) trackMap"

definition entries :: "('g, 'b) CamMap \<Rightarrow> (int \<times> int \<times> string) list" where
  "entries cm = concat (map (\<lambda>(cam, trackMap). trackEntries trackMap) cm)"

definition storeInv :: "('g, 'b) TrackStore \<Rightarrow> bool" where
  "storeInv st =
     (mset (intervalTree st) = mset (entries (camMap st))
      \<and> distinct (map fst (camMap st))
      \<and> (\<forall>(cam, trackMap) \<in> set (camMap st).
            distinct (map fst trackMap) \<and> (\<forall>(tid, t) \<in> set trackMap. tid < nextTrackId st)))"

definition presentIn :: "('g, 'b) CamMap \<Rightarrow> (int \<times> int) \<Rightarrow> TrackId set" where
  "presentIn cm q =
     {tid. \<exists>cam t. getPossibleTrack cm tid cam = Some t
                    \<and> intersects (begin_frame t, end_frame t) q}"

section \<open>Example sessions\<close>

text \<open>
  A small implementation of the Track interface, used to run the model on concrete
  sessions: features are kept by frame, \<open>setFeature\<close> widens the frame range and
  \<open>merge\<close> takes over the features and the range of the other tracks.
\<close>

definition simpleDeps :: "(unit, unit) Deps" where
  "simpleDeps =
     \<lparr> getFeature = (\<lambda>t f. [map_of (features t) f]),
       canInterpolate = (\<lambda>t f. ([map_of (features t) f], False)),
       setFeature = (\<lambda>t feat geo.
          t\<lparr> features := AList.update (frame feat) (feat\<lparr> geometry := geo \<rparr>) (features t),
             begin_frame := min (begin_frame t) (frame feat),
             end_frame := max (end_frame t) (frame feat) \<rparr>),
       merge = (\<lambda>t others.
          t\<lparr> features := features t @ concat (map features others),
             begin_frame := fold min (map begin_frame others) (begin_frame t),
             end_frame := fold max (map end_frame others) (end_frame t) \<rparr>),
       updateBounds = (\<lambda>b u w. ()),
       nextFrame = (\<lambda>f. f + 1),
       selectNextTrack = (\<lambda>s delta. None) \<rparr>"

definition defaultSettings :: TrackSettings where
  "defaultSettings =
     \<lparr> newTrackSettings_mode = TrackMode, newTrackSettings_type = ''unknown'',
       track_autoAdvanceFrame = False, track_interpolate = False,
       detection_continuous = False, deletionSettings_promptUser = True \<rparr>"

text \<open>The state of a freshly created mode manager over a store and a list of recipes.\<close>

definition initialState ::
  "(unit, unit) TrackStore \<Rightarrow> (unit, unit) Recipe list \<Rightarrow> (unit, unit) State" where
  "initialState st rs =
     \<lparr> store = st, selectedTrackId = None, selectedCamera = ''singleCam'',
       editingTrack = False, current_frame = 0, recipes = rs,
       trackSettings = defaultSettings, creating = False,
       annotationModes_editing = rectangle, selectedFeatureHandle = - 1,
       selectedKey = [], editingCanary = False, mergeList = [], linkingState = False,
       linkingTrack = None, linkingCamera = [], prompts = [], preventInterruptCalls = 0 \<rparr>"

text \<open>A store holding track 0, created at frame 5 and still without a feature.\<close>

definition storeOne :: "(unit, unit) TrackStore" where
  "storeOne = \<lparr> camMap = [(''singleCam'', [(0, newTrack 0 5 ''foo'')])],
                intervalTree = [(5, 5, ''0'')], nextTrackId = 1 \<rparr>"

text \<open>A session over \<open>storeOne\<close> with track 0 selected.\<close>

definition session :: "(unit, unit) Recipe list \<Rightarrow> (unit, unit) State" where
  "session rs = (initialState storeOne rs)\<lparr> selectedTrackId := Some 0 \<rparr>"

text \<open>A session over the empty store in which a stale id 0 is still selected.\<close>

definition sessionA :: "(unit, unit) State" where
  "sessionA = (initialState useTrackStore [])\<lparr> selectedTrackId := Some 0 \<rparr>"

text \<open>The empty response of a recipe, and recipes that always answer the same.\<close>

definition noChanges :: "unit RecipeChanges" where
  "noChanges = \<lparr> ch_data = [], ch_union = [], ch_unionWithoutBounds = [],
                 ch_newType = None, ch_newSelectedKey = None, ch_done = None \<rparr>"

definition constRecipe :: "string \<Rightarrow> unit RecipeChanges \<Rightarrow> (unit, unit) Recipe" where
  "constRecipe n c = \<lparr> recipe_name = n, recipe_active = True,
                       recipe_update = (\<lambda>eventType frameNum track d key. c) \<rparr>"

definition aShape :: "unit SupportedFeature" where
  "aShape = \<lparr> ftype = ''Feature'', fgeometry = (), fproperties = [] \<rparr>"

definition typeRecipes :: "(unit, unit) Recipe list" where
  "typeRecipes = [constRecipe ''A'' (noChanges\<lparr> ch_newType := Some Polygon \<rparr>),
                  constRecipe ''B'' (noChanges\<lparr> ch_newType := Some LineString \<rparr>)]"

definition emptyKeyRecipes :: "(unit, unit) Recipe list" where
  "emptyKeyRecipes = [constRecipe ''A'' (noChanges\<lparr> ch_newSelectedKey := Some [] \<rparr>),
                      constRecipe ''B'' (noChanges\<lparr> ch_newSelectedKey := Some [] \<rparr>)]"

text \<open>
  Two cameras: track 0 exists on both, track 1 on the right camera only. The session
  has track 0 selected on the left camera and is linking to the right one.
\<close>

definition storeMulti :: "(unit, unit) TrackStore" where
  "storeMulti =
     \<lparr> camMap = [(''left'', [(0, newTrack 0 5 ''foo'')]),
                 (''right'', [(0, newTrack 0 5 ''foo''), (1, newTrack 1 7 ''bar'')])],
       intervalTree = [(5, 5, ''0''), (5, 5, ''0''), (7, 7, ''1'')], nextTrackId = 2 \<rparr>"

definition linkingSession :: "(unit, unit) State" where
  "linkingSession =
     (initialState storeMulti [])
       \<lparr> selectedTrackId := Some 0, selectedCamera := ''left'', linkingState := True,
         linkingCamera := ''right'' \<rparr>"

text \<open>A store whose track 0 has a keyframe at its frame 5, and a session selecting it.\<close>

definition aFeature :: "(unit, unit) Feature" where
  "aFeature = \<lparr> frame = 5, flick = None, keyframe = True, bounds = Some (),
                interpolate = None, geometry = [] \<rparr>"

definition trackF :: "(unit, unit) Track" where
  "trackF = (newTrack 0 5 ''foo'')\<lparr> features := [(5, aFeature)] \<rparr>"

definition storeFeat :: "(unit, unit) TrackStore" where
  "storeFeat = \<lparr> camMap = [(''singleCam'', [(0, trackF)])],
                 intervalTree = [(5, 5, ''0'')], nextTrackId = 1 \<rparr>"

definition sessionF :: "(unit, unit) State" where
  "sessionF = (initialState storeFeat [])\<lparr> selectedTrackId := Some 0 \<rparr>"

text \<open>A recipe that writes one shape under the key k, and one that also sets the type.\<close>

definition shapeRecipe :: "(unit, unit) Recipe" where
  "shapeRecipe = constRecipe ''A'' (noChanges\<lparr> ch_data := [(''k'', [aShape])] \<rparr>)"

definition shapeTypeRecipe :: "(unit, unit) Recipe" where
  "shapeTypeRecipe =
     constRecipe ''A'' (noChanges\<lparr> ch_data := [(''k'', [aShape])], ch_newType := Some Polygon \<rparr>)"

text \<open>
  The stores of the tests of the store: after \<open>addTrack(1000, 'foo')\<close>; after
  \<open>addTrack(20, 'foo')\<close>; and after \<open>addTrack(10, 'foo')\<close> as well.
\<close>

definition storeT1000 :: "(unit, unit) TrackStore" where
  "storeT1000 = \<lparr> camMap = [(''singleCam'', [(0, newTrack 0 1000 ''foo'')])],
                  intervalTree = [(1000, 1000, ''0'')], nextTrackId = 1 \<rparr>"

definition storeT0 :: "(unit, unit) TrackStore" where
  "storeT0 = \<lparr> camMap = [(''singleCam'', [(0, newTrack 0 20 ''foo'')])],
               intervalTree = [(20, 20, ''0'')], nextTrackId = 1 \<rparr>"

definition storeT01 :: "(unit, unit) TrackStore" where
  "storeT01 =
     \<lparr> camMap = [(''singleCam'', [(0, newTrack 0 20 ''foo''), (1, newTrack 1 10 ''foo'')])],
       intervalTree = [(20, 20, ''0''), (10, 10, ''1'')], nextTrackId = 2 \<rparr>"

text \<open>
  Dependencies whose \<open>selectNextTrack\<close> answers the neighbouring id, if the selected
  camera holds a track with it; a store with three tracks; a session with tracks 0 and
  1 staged for a merge; and a session on the left camera of \<open>storeMulti\<close> that has
  staged track 1, which only the right camera holds.
\<close>

definition orderedDeps :: "(unit, unit) Deps" where
  "orderedDeps =
     simpleDeps\<lparr> selectNextTrack := (\<lambda>s delta.
        case selectedTrackId s of
          None \<Rightarrow> None
        | Some x \<Rightarrow>
            if getPossibleTrack (camMap (store s)) (x + delta) (selectedCamera s) \<noteq> None
            then Some (x + delta) else None) \<rparr>"

definition storeThree :: "(unit, unit) TrackStore" where
  "storeThree =
     \<lparr> camMap = [(''singleCam'',
          [(0, newTrack 0 5 ''foo''), (1, newTrack 1 9 ''foo''), (2, newTrack 2 12 ''foo'')])],
       intervalTree = [(5, 5, ''0''), (9, 9, ''1''), (12, 12, ''2'')], nextTrackId = 3 \<rparr>"

definition mergeSession :: "(unit, unit) State" where
  "mergeSession = (initialState storeThree [])\<lparr> selectedTrackId := Some 1, mergeList := [0, 1] \<rparr>"

definition strayMergeSession :: "(unit, unit) State" where
  "strayMergeSession =
     (initialState storeMulti [])
       \<lparr> selectedTrackId := Some 1, selectedCamera := ''left'', mergeList := [0, 1] \<rparr>"

section \<open>Lookups in the track store\<close>

lemma show_int_0: "show_int 0 = ''0''"
  by (simp add: show_int_def show_nat.simps digit_def)

text \<open>
  Claim C8. For every id and camera such that no track with that id exists on that
  camera, \<open>getTrack\<close> fails with the NotFound error, whose message names both the id
  and the camera; when the track exists, it is returned.
\<close>

theorem getTrack_NotFound_or_track:
  "((\<nexists>trackMap t. map_of cm cameraName = Some trackMap \<and> map_of trackMap tid = Some t) \<longrightarrow>
      getTrack cm tid cameraName = Inl (TrackNotFound tid cameraName)
      \<and> message (TrackNotFound tid cameraName) =
          ''TrackId '' @ show_int tid @ '' not found in trackMap with cameraName '' @ cameraName)
   \<and> (\<forall>trackMap t.
         map_of cm cameraName = Some trackMap \<and> map_of trackMap tid = Some t \<longrightarrow>
         getTrack cm tid cameraName = Inr t)"
  by (auto simp: getTrack_def getPossibleTrack_def split: option.splits)

text \<open>
  The test of the store: track 0 is missing from the fresh store, with the message the
  test expects, and is found once it was added at frame 1000.
\<close>

theorem getTrack_witness:
  "map_of (camMap (useTrackStore :: (unit, unit) TrackStore)) ''singleCam'' = Some []
   \<and> getTrack (camMap (useTrackStore :: (unit, unit) TrackStore)) 0 ''singleCam''
       = Inl (TrackNotFound 0 ''singleCam'')
   \<and> message (TrackNotFound 0 ''singleCam'')
       = ''TrackId 0 not found in trackMap with cameraName singleCam''
   \<and> addTrack 1000 ''foo'' None ''singleCam'' None (useTrackStore :: (unit, unit) TrackStore)
       = Inr (newTrack 0 1000 ''foo'', storeT1000)
   \<and> map_of (camMap storeT1000) ''singleCam'' = Some [(0, newTrack 0 1000 ''foo'')]
   \<and> map_of [(0, newTrack 0 1000 ''foo'' :: (unit, unit) Track)] 0 = Some (newTrack 0 1000 ''foo'')
   \<and> getTrack (camMap storeT1000) 0 ''singleCam'' = Inr (newTrack 0 1000 ''foo'')"
proof -
  have a: "map_of (camMap (useTrackStore :: (unit, unit) TrackStore)) ''singleCam'' = Some []"
    by (simp add: useTrackStore_def)
  then have n: "\<nexists>trackMap t.
      map_of (camMap (useTrackStore :: (unit, unit) TrackStore)) ''singleCam'' = Some trackMap
      \<and> map_of trackMap (0 :: int) = Some (t :: (unit, unit) Track)"
    by simp
  have b: "map_of (camMap storeT1000) ''singleCam'' = Some [(0, newTrack 0 1000 ''foo'')]
      \<and> map_of [(0, newTrack 0 1000 ''foo'' :: (unit, unit) Track)] 0
          = Some (newTrack 0 1000 ''foo'')"
    by (simp add: storeT1000_def)
  have c: "addTrack 1000 ''foo'' None ''singleCam'' None (useTrackStore :: (unit, unit) TrackStore)
       = Inr (newTrack 0 1000 ''foo'', storeT1000)"
    by (simp add: addTrack_def useTrackStore_def storeT1000_def Let_def trackMapOf_def
        indexEntry_def newTrack_def show_int_0)
  from getTrack_NotFound_or_track
      [of "camMap (useTrackStore :: (unit, unit) TrackStore)" "''singleCam''" 0] n
  have d: "getTrack (camMap (useTrackStore :: (unit, unit) TrackStore)) 0 ''singleCam''
       = Inl (TrackNotFound 0 ''singleCam'')
     \<and> message (TrackNotFound 0 ''singleCam'')
       = ''TrackId 0 not found in trackMap with cameraName singleCam''"
    by (simp add: show_int_0)
  from getTrack_NotFound_or_track [of "camMap storeT1000" "''singleCam''" 0] b
  have e: "getTrack (camMap storeT1000) 0 ''singleCam'' = Inr (newTrack 0 1000 ''foo'')"
    by blast
  from a b c d e show ?thesis by simp
qed

section \<open>The interval index of the track store\<close>

lemma set_search:
  "set (search tree q) = {v. \<exists>b e. (b, e, v) \<in> set tree \<and> intersects (b, e) q}"
  by (auto simp: search_def image_iff) force

lemma set_entries:
  "set (entries cm) =
     {x. \<exists>cam tm tid t. (cam, tm) \<in> set cm \<and> (tid, t) \<in> set tm \<and> x = indexEntry tid t}"
  by (auto simp: entries_def trackEntries_def) force+

lemma getPossibleTrack_mem:
  assumes "distinct (map fst cm)" and "\<forall>(cam, tm) \<in> set cm. distinct (map fst tm)"
  shows "(getPossibleTrack cm tid cam = Some t)
     = (\<exists>tm. (cam, tm) \<in> set cm \<and> (tid, t) \<in> set tm)"
proof
  assume "getPossibleTrack cm tid cam = Some t"
  then obtain tm where "map_of cm cam = Some tm" "map_of tm tid = Some t"
    by (auto simp: getPossibleTrack_def split: option.splits)
  then show "\<exists>tm. (cam, tm) \<in> set cm \<and> (tid, t) \<in> set tm"
    by (auto dest: map_of_SomeD)
next
  assume "\<exists>tm. (cam, tm) \<in> set cm \<and> (tid, t) \<in> set tm"
  then obtain tm where m: "(cam, tm) \<in> set cm" "(tid, t) \<in> set tm" by blast
  with assms have "map_of cm cam = Some tm" "distinct (map fst tm)" by auto
  with m show "getPossibleTrack cm tid cam = Some t"
    by (simp add: getPossibleTrack_def)
qed

lemma search_exact:
  assumes "storeInv st"
  shows "set (search (intervalTree st) q) = show_int ` presentIn (camMap st) q"
proof -
  from assms have m: "set (intervalTree st) = set (entries (camMap st))"
    by (metis storeInv_def set_mset_mset)
  from assms have d: "distinct (map fst (camMap st))"
    "\<forall>(cam, tm) \<in> set (camMap st). distinct (map fst tm)"
    by (auto simp: storeInv_def)
  show ?thesis
    unfolding set_search m set_entries presentIn_def getPossibleTrack_mem [OF d]
    by (auto simp: indexEntry_def image_iff) blast+
qed


lemma update_absent:
  "k \<notin> fst ` set al \<Longrightarrow> AList.update k v al = al @ [(k, v)]"
  by (induction al) auto

lemma set_update_subset:
  "set (AList.update k v al) \<subseteq> insert (k, v) (set al)"
  by (induction al) auto

lemma mset_entries_update:
  "mset (entries (AList.update cam (trackMapOf cm cam @ [(tid, t)]) cm))
     = mset (entries cm) + {#indexEntry tid t#}"
proof (induction cm)
  case Nil
  then show ?case by (simp add: entries_def trackEntries_def trackMapOf_def)
next
  case (Cons p cm)
  obtain c m where p: "p = (c, m)" by (cases p)
  show ?case
  proof (cases "c = cam")
    case True
    then show ?thesis
      by (simp add: p entries_def trackEntries_def trackMapOf_def)
  next
    case False
    then have "trackMapOf (p # cm) cam = trackMapOf cm cam"
      by (simp add: p trackMapOf_def)
    with Cons False show ?thesis
      by (simp add: p entries_def)
  qed
qed

lemma trackMapOf_mem:
  "distinct (map fst cm) \<Longrightarrow> trackMapOf cm cam \<noteq> [] \<Longrightarrow> (cam, trackMapOf cm cam) \<in> set cm"
  by (auto simp: trackMapOf_def split: option.splits dest: map_of_SomeD)

lemma addTrack_storeInv:
  assumes inv: "storeInv st"
    and add: "addTrack fr ty afterId cam ov st = Inr (t, st')"
  shows "storeInv st' \<and> getPossibleTrack (camMap st') (trackId t) cam = Some t
    \<and> begin_frame t = fr \<and> end_frame t = fr"
proof -
  define tid where "tid = (case ov of Some i \<Rightarrow> i | None \<Rightarrow> nextTrackId st)"
  define tm where "tm = trackMapOf (camMap st) cam"
  from add have nodup: "ov \<noteq> None \<longrightarrow> getPossibleTrack (camMap st) tid cam = None"
    by (auto simp: addTrack_def Let_def tid_def split: if_splits)
  from add have t: "t = newTrack tid fr ty"
    and st': "st' = st\<lparr> camMap := AList.update cam (AList.update tid t tm) (camMap st),
        intervalTree := intervalTree st @ [indexEntry tid t],
        nextTrackId := max (nextTrackId st) (tid + 1) \<rparr>"
    by (auto simp: addTrack_def Let_def tid_def tm_def split: if_splits)
  from inv have d: "distinct (map fst (camMap st))"
    and inner: "\<And>c m. (c, m) \<in> set (camMap st) \<Longrightarrow>
        distinct (map fst m) \<and> (\<forall>(i, x) \<in> set m. i < nextTrackId st)"
    and ms: "mset (intervalTree st) = mset (entries (camMap st))"
    by (auto simp: storeInv_def)
  have tm_ok: "distinct (map fst tm) \<and> (\<forall>(i, x) \<in> set tm. i < nextTrackId st)"
  proof (cases "tm = []")
    case True
    then show ?thesis by simp
  next
    case False
    with d have "(cam, tm) \<in> set (camMap st)"
      unfolding tm_def by (simp add: trackMapOf_mem)
    with inner show ?thesis by blast
  qed
  have absent: "tid \<notin> fst ` set tm"
  proof (cases ov)
    case None
    then have "tid = nextTrackId st" by (simp add: tid_def)
    with tm_ok show ?thesis by force
  next
    case (Some i)
    with nodup have "getPossibleTrack (camMap st) tid cam = None" by simp
    then have "map_of tm tid = None"
      by (auto simp: getPossibleTrack_def tm_def trackMapOf_def split: option.splits)
    then show ?thesis by (simp add: map_of_eq_None_iff)
  qed
  have upd: "AList.update tid t tm = tm @ [(tid, t)]"
    using absent by (rule update_absent)
  have cm': "camMap st' = AList.update cam (tm @ [(tid, t)]) (camMap st)"
    by (simp add: st' upd)
  have new_ok: "distinct (map fst (tm @ [(tid, t)]))
      \<and> (\<forall>(i, x) \<in> set (tm @ [(tid, t)]). i < nextTrackId st')"
    using tm_ok absent by (auto simp: st')
  have m1: "mset (intervalTree st') = mset (entries (camMap st'))"
    unfolding cm' by (simp add: st' ms mset_entries_update tm_def)
  have d1: "distinct (map fst (camMap st'))"
    unfolding cm' using d by (simp add: distinct_update)
  have i1: "distinct (map fst m) \<and> (\<forall>(i, x) \<in> set m. i < nextTrackId st')"
    if "(c, m) \<in> set (camMap st')" for c m
  proof -
    from that have "(c, m) = (cam, tm @ [(tid, t)]) \<or> (c, m) \<in> set (camMap st)"
      unfolding cm' using set_update_subset [of cam "tm @ [(tid, t)]" "camMap st"]
      by auto
    then show ?thesis
    proof
      assume "(c, m) = (cam, tm @ [(tid, t)])"
      with new_ok show ?thesis by simp
    next
      assume "(c, m) \<in> set (camMap st)"
      with inner have "distinct (map fst m)" "\<forall>(i, x) \<in> set m. i < nextTrackId st" by auto
      then show ?thesis by (auto simp: st')
    qed
  qed
  have "map_of tm tid = None"
    using absent by (simp add: map_of_eq_None_iff)
  then have "map_of (tm @ [(tid, t)]) tid = Some t"
    by (simp add: map_add_def)
  moreover have "trackId t = tid"
    by (simp add: t newTrack_def)
  ultimately have g: "getPossibleTrack (camMap st') (trackId t) cam = Some t"
    unfolding cm' by (simp add: getPossibleTrack_def update_conv)
  have "storeInv st'"
    unfolding storeInv_def using m1 d1 i1 by blast
  with g show ?thesis
    by (simp add: t newTrack_def)
qed


lemma mset_foldr_remove1: "mset (foldr remove1 xs ys) = mset ys - mset xs"
proof (induction xs)
  case Nil
  then show ?case by simp
next
  case (Cons a xs)
  have "mset ys - mset xs - {#a#} = mset ys - add_mset a (mset xs)"
    by (metis add_mset_add_single diff_diff_add_mset)
  with Cons show ?case by simp
qed

lemma mset_trackEntries_delete:
  "distinct (map fst m) \<Longrightarrow>
   mset (trackEntries (AList.delete tid m))
     + mset (case map_of m tid of None \<Rightarrow> [] | Some t \<Rightarrow> [indexEntry tid t])
     = mset (trackEntries m)"
proof (induction m)
  case Nil
  then show ?case by (simp add: trackEntries_def)
next
  case (Cons p m)
  obtain i x where p: "p = (i, x)" by (cases p)
  show ?case
  proof (cases "i = tid")
    case True
    with Cons.prems p have "tid \<notin> fst ` set m" by auto
    then have "AList.delete tid m = m"
      by (simp add: delete_id)
    with True show ?thesis
      by (simp add: p trackEntries_def)
  next
    case False
    with Cons show ?thesis
      by (simp add: p trackEntries_def)
  qed
qed

lemma mset_entries_delete:
  "\<forall>(c, m) \<in> set cm. distinct (map fst m) \<Longrightarrow>
   mset (entries (deleteFromCameras tid cam cm)) + mset (removedEntries tid cam cm)
     = mset (entries cm)"
proof (induction cm)
  case Nil
  then show ?case
    by (simp add: entries_def deleteFromCameras_def removedEntries_def List.map_filter_simps)
next
  case (Cons p cm)
  obtain c m where p: "p = (c, m)" by (cases p)
  from Cons.prems p have dm: "distinct (map fst m)" by simp
  from Cons have IH: "mset (entries (deleteFromCameras tid cam cm))
      + mset (removedEntries tid cam cm) = mset (entries cm)"
    by simp
  have e: "entries (p # cm) = trackEntries m @ entries cm"
    by (simp add: p entries_def)
  show ?case
  proof (cases "addressed cam c")
    case True
    have d: "entries (deleteFromCameras tid cam (p # cm))
        = trackEntries (AList.delete tid m) @ entries (deleteFromCameras tid cam cm)"
      using True by (simp add: p entries_def deleteFromCameras_def)
    have r: "removedEntries tid cam (p # cm)
        = (case map_of m tid of None \<Rightarrow> [] | Some t \<Rightarrow> [indexEntry tid t])
          @ removedEntries tid cam cm"
      using True by (simp add: p removedEntries_def List.map_filter_simps split: option.splits)
    let ?A = "mset (trackEntries (AList.delete tid m))"
    let ?D = "mset (entries (deleteFromCameras tid cam cm))"
    let ?B = "mset (case map_of m tid of None \<Rightarrow> [] | Some t \<Rightarrow> [indexEntry tid t])"
    let ?E = "mset (removedEntries tid cam cm)"
    have "?A + ?D + (?B + ?E) = (?A + ?B) + (?D + ?E)"
      by (simp add: ac_simps)
    also have "\<dots> = mset (trackEntries m) + mset (entries cm)"
      using IH mset_trackEntries_delete [OF dm, of tid] by simp
    finally show ?thesis
      unfolding d r e by simp
  next
    case False
    have d: "entries (deleteFromCameras tid cam (p # cm))
        = trackEntries m @ entries (deleteFromCameras tid cam cm)"
      using False by (simp add: p entries_def deleteFromCameras_def)
    have r: "removedEntries tid cam (p # cm) = removedEntries tid cam cm"
      using False by (simp add: p removedEntries_def List.map_filter_simps)
    show ?thesis
      unfolding d r e using IH by (simp add: ac_simps)
  qed
qed

lemma deleteFromCameras_keys: "map fst (deleteFromCameras tid cam cm) = map fst cm"
  by (induction cm) (auto simp: deleteFromCameras_def)

lemma deleteFromCameras_mem:
  "(c, m') \<in> set (deleteFromCameras tid cam cm) \<Longrightarrow>
   \<exists>m. (c, m) \<in> set cm \<and> (m' = m \<or> m' = AList.delete tid m)"
  by (auto simp: deleteFromCameras_def split: if_splits)

lemma getPossibleTrack_deleted:
  "addressed cam c \<Longrightarrow> getPossibleTrack (deleteFromCameras tid cam cm) tid c = None"
proof (induction cm)
  case Nil
  then show ?case by (simp add: getPossibleTrack_def deleteFromCameras_def)
next
  case (Cons p cm)
  obtain c' m where p: "p = (c', m)" by (cases p)
  from Cons show ?case
    by (auto simp: getPossibleTrack_def deleteFromCameras_def p delete_conv
        split: option.splits)
qed

lemma removeTrack_storeInv:
  assumes inv: "storeInv st"
    and rm: "removeTrack tid dn cam st = Inr st'"
  shows "storeInv st' \<and> (\<forall>c. addressed cam c \<longrightarrow> getPossibleTrack (camMap st') tid c = None)"
proof -
  from rm have st': "st' = st\<lparr> camMap := deleteFromCameras tid cam (camMap st),
      intervalTree := foldr remove1 (removedEntries tid cam (camMap st)) (intervalTree st) \<rparr>"
    by (auto simp: removeTrack_def Let_def split: if_splits)
  from inv have d: "distinct (map fst (camMap st))"
    and inner: "\<And>c m. (c, m) \<in> set (camMap st) \<Longrightarrow>
        distinct (map fst m) \<and> (\<forall>(i, x) \<in> set m. i < nextTrackId st)"
    and ms: "mset (intervalTree st) = mset (entries (camMap st))"
    by (auto simp: storeInv_def)
  from inner have dm: "\<forall>(c, m) \<in> set (camMap st). distinct (map fst m)" by blast
  have "mset (entries (deleteFromCameras tid cam (camMap st)))
      = mset (entries (camMap st)) - mset (removedEntries tid cam (camMap st))"
    using mset_entries_delete [OF dm, of tid cam, symmetric] by simp
  then have m1: "mset (intervalTree st') = mset (entries (camMap st'))"
    by (simp add: st' mset_foldr_remove1 ms)
  have d1: "distinct (map fst (camMap st'))"
    using d by (simp add: st' deleteFromCameras_keys)
  have i1: "distinct (map fst m') \<and> (\<forall>(i, x) \<in> set m'. i < nextTrackId st')"
    if "(c, m') \<in> set (camMap st')" for c m'
  proof -
    from that obtain m where m: "(c, m) \<in> set (camMap st)" "m' = m \<or> m' = AList.delete tid m"
      unfolding st' using deleteFromCameras_mem [of c m' tid cam "camMap st"] by auto
    from inner [OF m(1)] have "distinct (map fst m)" "\<forall>(i, x) \<in> set m. i < nextTrackId st"
      by auto
    moreover have "set (AList.delete tid m) \<subseteq> set m"
      by (auto simp: AList.delete_eq)
    ultimately show ?thesis
      using m(2) by (auto simp: st' distinct_delete)
  qed
  have "storeInv st'"
    unfolding storeInv_def using m1 d1 i1 by blast
  then show ?thesis
    by (simp add: st' getPossibleTrack_deleted)
qed

lemma storeInv_useTrackStore: "storeInv useTrackStore"
  by (simp add: storeInv_def useTrackStore_def entries_def trackEntries_def)

text \<open>
  Claim C9. For every store state in which the index is in step with the camera map,
  and every query range, \<open>search\<close> returns exactly the ids of the tracks whose
  inclusive range intersects the query range. The fresh store is in step, and
  \<open>addTrack\<close> and \<open>removeTrack\<close> keep it so while adding the new single-frame track
  and removing the addressed one: later queries reflect exactly the tracks present.
\<close>

theorem search_exact_and_maintained:
  "(storeInv st \<longrightarrow> set (search (intervalTree st) q) = show_int ` presentIn (camMap st) q)
   \<and> (storeInv st \<and> addTrack fr ty afterId cam ov st = Inr (t, sa) \<longrightarrow>
         storeInv sa \<and> getPossibleTrack (camMap sa) (trackId t) cam = Some t
         \<and> begin_frame t = fr \<and> end_frame t = fr)
   \<and> (storeInv st \<and> removeTrack tid dn cam st = Inr sr \<longrightarrow>
         storeInv sr
         \<and> (\<forall>c. addressed cam c \<longrightarrow> getPossibleTrack (camMap sr) tid c = None))
   \<and> storeInv (useTrackStore :: ('g, 'b) TrackStore)"
  using search_exact [of st q] addTrack_storeInv [of st fr ty afterId cam ov t sa]
    removeTrack_storeInv [of st tid dn cam sr] storeInv_useTrackStore
  by blast

lemma show_int_1: "show_int 1 = ''1''"
  by (simp add: show_int_def show_nat.simps digit_def)

text \<open>
  The first test of the store: with tracks at frames 20 and 10, the range [10, 10]
  finds one track and [10, 20] both; after track 1 is removed, [10, 10] finds none
  and [10, 20] one.
\<close>

theorem search_exact_and_maintained_witness:
  "storeInv (useTrackStore :: (unit, unit) TrackStore)
   \<and> addTrack 20 ''foo'' None ''singleCam'' None useTrackStore = Inr (newTrack 0 20 ''foo'', storeT0)
   \<and> storeInv storeT0
   \<and> addTrack 10 ''foo'' None ''singleCam'' None storeT0 = Inr (newTrack 1 10 ''foo'', storeT01)
   \<and> storeInv storeT01
   \<and> set (search (intervalTree storeT01) (10, 10)) = show_int ` presentIn (camMap storeT01) (10, 10)
   \<and> search (intervalTree storeT01) (10, 10) = [''1'']
   \<and> search (intervalTree storeT01) (10, 20) = [''0'', ''1'']
   \<and> removeTrack 1 False [] storeT01 = Inr (storeT0\<lparr> nextTrackId := 2 \<rparr>)
   \<and> storeInv (storeT0\<lparr> nextTrackId := 2 \<rparr>)
   \<and> search (intervalTree (storeT0\<lparr> nextTrackId := 2 \<rparr>)) (10, 10) = []
   \<and> search (intervalTree (storeT0\<lparr> nextTrackId := 2 \<rparr>)) (10, 20) = [''0'']"
proof -
  have a0: "addTrack 20 ''foo'' None ''singleCam'' None (useTrackStore :: (unit, unit) TrackStore)
      = Inr (newTrack 0 20 ''foo'', storeT0)"
    by (simp add: addTrack_def useTrackStore_def storeT0_def Let_def trackMapOf_def
        indexEntry_def newTrack_def show_int_0)
  have a1: "addTrack 10 ''foo'' None ''singleCam'' None storeT0
      = Inr (newTrack 1 10 ''foo'', storeT01)"
    by (simp add: addTrack_def storeT0_def storeT01_def Let_def trackMapOf_def
        indexEntry_def newTrack_def show_int_1)
  have r1: "removeTrack 1 False [] storeT01 = Inr (storeT0\<lparr> nextTrackId := 2 \<rparr>)"
    by (simp add: removeTrack_def storeT0_def storeT01_def Let_def removedEntries_def
        deleteFromCameras_def addressed_def indexEntry_def newTrack_def show_int_1
        List.map_filter_simps AList.delete_eq)
  have i: "storeInv (useTrackStore :: (unit, unit) TrackStore)"
    using search_exact_and_maintained [where 'g = unit and 'b = unit] by blast
  have i0: "storeInv storeT0"
    using search_exact_and_maintained
      [of useTrackStore _ 20 "''foo''" None "''singleCam''" None "newTrack 0 20 ''foo''" storeT0]
      i a0 by blast
  have i01: "storeInv storeT01"
    using search_exact_and_maintained
      [of storeT0 _ 10 "''foo''" None "''singleCam''" None "newTrack 1 10 ''foo''" storeT01]
      i0 a1 by blast
  have q: "set (search (intervalTree storeT01) (10, 10))
      = show_int ` presentIn (camMap storeT01) (10, 10)"
    using search_exact_and_maintained [of storeT01 "(10, 10)"] i01 by blast
  have s: "search (intervalTree storeT01) (10, 10) = [''1'']"
    "search (intervalTree storeT01) (10, 20) = [''0'', ''1'']"
    "search (intervalTree (storeT0\<lparr> nextTrackId := 2 \<rparr>)) (10, 10) = []"
    "search (intervalTree (storeT0\<lparr> nextTrackId := 2 \<rparr>)) (10, 20) = [''0'']"
    by (simp_all add: search_def storeT0_def storeT01_def intersects_def)
  have i2: "storeInv (storeT0\<lparr> nextTrackId := 2 \<rparr>)"
    using search_exact_and_maintained
      [where st = storeT01 and tid = 1 and dn = False and cam = "[]"
         and sr = "storeT0\<lparr> nextTrackId := 2 \<rparr>"]
      i01 r1 by blast
  from i a0 i0 a1 i01 q s r1 i2 show ?thesis by simp
qed

section \<open>Selection, merge candidates and link targets\<close>

lemma leaveCreating_fields [simp]:
  "store (leaveCreating tid edit s) = store s"
  "selectedTrackId (leaveCreating tid edit s) = selectedTrackId s"
  "selectedCamera (leaveCreating tid edit s) = selectedCamera s"
  "editingTrack (leaveCreating tid edit s) = editingTrack s"
  "mergeList (leaveCreating tid edit s) = mergeList s"
  "linkingState (leaveCreating tid edit s) = linkingState s"
  "linkingTrack (leaveCreating tid edit s) = linkingTrack s"
  "linkingCamera (leaveCreating tid edit s) = linkingCamera s"
  "prompts (leaveCreating tid edit s) = prompts s"
  "recipes (leaveCreating tid edit s) = recipes s"
  "current_frame (leaveCreating tid edit s) = current_frame s"
  "trackSettings (leaveCreating tid edit s) = trackSettings s"
  by (simp_all add: leaveCreating_def)

lemma leaveCreating_not_edit [simp]: "creating (leaveCreating tid False s) = False"
  by (simp add: leaveCreating_def)

lemma setAdd_not_Nil [simp]: "setAdd xs x \<noteq> []"
  by (auto simp: setAdd_def Let_def)

lemma setAdd_distinct:
  "distinct xs \<Longrightarrow> setAdd xs x = (if x \<in> set xs then xs else xs @ [x])"
  by (simp add: setAdd_def Let_def distinct_remdups_id)

text \<open>
  Claim C2, amended. For every call of \<open>handleSelectTrack\<close> with a non-null id while
  merge mode is active, the id is added to the merge candidates (appended unless it
  already is one), and the selection is then applied with editing off: the id becomes
  the selected track and editing is suppressed. No link target is set and no prompt is
  shown.
\<close>

theorem handleSelectTrack_merge:
  assumes "mergeInProgress s"
  shows "mergeList (handleSelectTrack (Some t) edit s) = setAdd (mergeList s) t
    \<and> (distinct (mergeList s) \<longrightarrow>
          mergeList (handleSelectTrack (Some t) edit s)
            = (if t \<in> set (mergeList s) then mergeList s else mergeList s @ [t]))
    \<and> selectedTrackId (handleSelectTrack (Some t) edit s) = Some t
    \<and> editingTrack (handleSelectTrack (Some t) edit s) = False
    \<and> linkingTrack (handleSelectTrack (Some t) edit s) = linkingTrack s
    \<and> prompts (handleSelectTrack (Some t) edit s) = prompts s"
  using assms
  by (auto simp: handleSelectTrack_def Let_def mergeInProgress_def selectTrack_def
      setAdd_distinct)

theorem handleSelectTrack_merge_witness:
  "mergeInProgress (sessionA\<lparr> selectedTrackId := Some 1, mergeList := [1] \<rparr>)
   \<and> distinct (mergeList (sessionA\<lparr> selectedTrackId := Some 1, mergeList := [1] \<rparr>))
   \<and> mergeList (handleSelectTrack (Some 2) True
        (sessionA\<lparr> selectedTrackId := Some 1, mergeList := [1] \<rparr>)) = [1, 2]
   \<and> editingTrack (handleSelectTrack (Some 2) True
        (sessionA\<lparr> selectedTrackId := Some 1, mergeList := [1] \<rparr>)) = False"
proof -
  have h: "mergeInProgress (sessionA\<lparr> selectedTrackId := Some 1, mergeList := [1] \<rparr>)"
    by (simp add: mergeInProgress_def)
  from handleSelectTrack_merge [OF h, of 2 True] h show ?thesis
    by (simp add: setAdd_def)
qed

text \<open>
  Claim C2 as stated fails: with track 1 selected and staged for a merge, selecting
  track 2 changes the selection from 1 to 2.
\<close>

theorem handleSelectTrack_merge_changes_selection:
  "mergeInProgress (sessionA\<lparr> selectedTrackId := Some 1, mergeList := [1] \<rparr>)
   \<and> selectedTrackId (sessionA\<lparr> selectedTrackId := Some 1, mergeList := [1] \<rparr>) = Some 1
   \<and> selectedTrackId (handleSelectTrack (Some 2) True
        (sessionA\<lparr> selectedTrackId := Some 1, mergeList := [1] \<rparr>)) = Some 2"
  by (simp add: handleSelectTrack_def Let_def mergeInProgress_def selectTrack_def sessionA_def
      initialState_def setAdd_def leaveCreating_def)

text \<open>
  Claim C6, amended. For every track id offered through \<open>handleSelectTrack\<close> while
  linking mode is active and merge mode is not, the id is stored as the link target if
  and only if tracks with that id exist on at most one camera; if the id exists on more
  than one camera the Linking Error prompt is shown and the link target is left
  unchanged. The selection is not changed in either case.
\<close>

theorem handleSelectTrack_linking:
  assumes "linkingState s" and "\<not> mergeInProgress s"
  shows "linkingTrack (handleSelectTrack (Some t) edit s) =
           (if length (getTrackAll (camMap (store s)) t) \<le> 1 then Some t else linkingTrack s)
    \<and> prompts (handleSelectTrack (Some t) edit s) =
           (if length (getTrackAll (camMap (store s)) t) \<le> 1 then prompts s
            else prompts s @ [LinkingError t (linkingCamera s)])
    \<and> selectedTrackId (handleSelectTrack (Some t) edit s) = selectedTrackId s
    \<and> editingTrack (handleSelectTrack (Some t) edit s) = editingTrack s
    \<and> mergeList (handleSelectTrack (Some t) edit s) = mergeList s"
proof -
  let ?s1 = "leaveCreating (Some t) edit s"
  have eq: "handleSelectTrack (Some t) edit s = setLinkingTrack t ?s1"
    using assms by (simp add: handleSelectTrack_def Let_def mergeInProgress_def)
  show ?thesis
    unfolding eq by (simp add: setLinkingTrack_def Let_def)
qed

theorem handleSelectTrack_linking_witness:
  "linkingState (linkingSession) \<and> \<not> mergeInProgress linkingSession
   \<and> length (getTrackAll (camMap (store linkingSession)) 1) = 1
   \<and> linkingTrack (handleSelectTrack (Some 1) False linkingSession) = Some 1
   \<and> length (getTrackAll (camMap (store linkingSession)) 0) = 2
   \<and> linkingTrack (handleSelectTrack (Some 0) False linkingSession) = None
   \<and> prompts (handleSelectTrack (Some 0) False linkingSession) = [LinkingError 0 ''right'']"
proof -
  have h1: "linkingState linkingSession"
    by (simp add: linkingSession_def)
  have h2: "\<not> mergeInProgress linkingSession"
    by (simp add: linkingSession_def mergeInProgress_def initialState_def)
  have l1: "length (getTrackAll (camMap (store linkingSession)) 1) = 1"
    by (simp add: linkingSession_def initialState_def storeMulti_def getTrackAll_def
        List.map_filter_simps)
  have l0: "length (getTrackAll (camMap (store linkingSession)) 0) = 2"
    by (simp add: linkingSession_def initialState_def storeMulti_def getTrackAll_def
        List.map_filter_simps)
  have f: "linkingTrack linkingSession = None" "prompts linkingSession = []"
    "linkingCamera linkingSession = ''right''"
    by (simp_all add: linkingSession_def initialState_def)
  from handleSelectTrack_linking [OF h1 h2, of 1 False]
    handleSelectTrack_linking [OF h1 h2, of 0 False]
  show ?thesis
    using h1 h2 by (simp add: l1 l0 f)
qed

text \<open>
  Claim C6 as stated fails: an id that exists on no camera is stored as the link
  target, and while merge mode is active an id that exists on exactly one camera is
  not stored.
\<close>

theorem handleSelectTrack_linking_absent_id:
  "linkingState (sessionA\<lparr> linkingState := True \<rparr>)
   \<and> length (getTrackAll (camMap (store (sessionA\<lparr> linkingState := True \<rparr>))) 5) = 0
   \<and> linkingTrack (handleSelectTrack (Some 5) False (sessionA\<lparr> linkingState := True \<rparr>))
       = Some 5
   \<and> linkingState (linkingSession\<lparr> mergeList := [0] \<rparr>)
   \<and> length (getTrackAll (camMap (store (linkingSession\<lparr> mergeList := [0] \<rparr>))) 1) = 1
   \<and> linkingTrack (handleSelectTrack (Some 1) False (linkingSession\<lparr> mergeList := [0] \<rparr>))
       = None"
  by (simp add: handleSelectTrack_def Let_def mergeInProgress_def setLinkingTrack_def
      sessionA_def initialState_def useTrackStore_def getTrackAll_def leaveCreating_def
      linkingSession_def storeMulti_def selectTrack_def List.map_filter_simps)

section \<open>Starting to link\<close>

text \<open>
  Claim C7 fails on the code. With track 0 selected and linking inactive,
  \<open>handleStartLinking\<close> for a camera that is not in the camera map throws, but only
  after it has set the linking flag: the failed call leaves the session in linking
  mode.
\<close>

theorem handleStartLinking_unknown_camera:
  "\<not> linkingState sessionA \<and> selectedTrackId sessionA = Some 0
   \<and> map_of (camMap (store sessionA)) ''cam2'' = None
   \<and> handleStartLinking ''cam2'' sessionA
       = (Some (CameraDoesNotExist ''cam2''), sessionA\<lparr> linkingState := True \<rparr>)
   \<and> linkingState (snd (handleStartLinking ''cam2'' sessionA)) \<noteq> linkingState sessionA"
  by (simp add: handleStartLinking_def sessionA_def initialState_def useTrackStore_def)

section \<open>Escape\<close>

lemma removedEntries_nonempty:
  "map_of cm cam = Some tm \<Longrightarrow> map_of tm tid = Some t \<Longrightarrow> removedEntries tid cam cm \<noteq> []"
proof (induction cm)
  case Nil
  then show ?case by simp
next
  case (Cons p cm)
  obtain c m where p: "p = (c, m)" by (cases p)
  show ?case
  proof (cases "c = cam")
    case True
    with Cons.prems p show ?thesis
      by (simp add: removedEntries_def List.map_filter_simps addressed_def)
  next
    case False
    with Cons p have "removedEntries tid cam cm \<noteq> []" by simp
    then show ?thesis
      by (simp add: removedEntries_def List.map_filter_simps p split: option.splits)
  qed
qed

lemma getPossibleTrack_deleteFromCameras:
  "getPossibleTrack (deleteFromCameras tid cam cm) tid cam = None"
proof (induction cm)
  case Nil
  then show ?case by (simp add: getPossibleTrack_def deleteFromCameras_def)
next
  case (Cons p cm)
  obtain c m where p: "p = (c, m)" by (cases p)
  from Cons show ?case
    by (auto simp: getPossibleTrack_def deleteFromCameras_def p addressed_def delete_conv
        split: option.splits)
qed

lemma removeTrackS_present:
  assumes "getPossibleTrack (camMap (store s)) tid cam = Some t"
  shows "\<exists>st. removeTrack tid dn cam (store s) = Inr st \<and> removeTrackS tid dn cam s = (None, s\<lparr> store := st \<rparr>)
     \<and> getPossibleTrack (camMap st) tid cam = None"
proof -
  from assms obtain tm where "map_of (camMap (store s)) cam = Some tm" "map_of tm tid = Some t"
    by (auto simp: getPossibleTrack_def split: option.splits)
  then have "removedEntries tid cam (camMap (store s)) \<noteq> []"
    by (rule removedEntries_nonempty)
  then show ?thesis
    by (simp add: removeTrack_def removeTrackS_def Let_def getPossibleTrack_deleteFromCameras)
qed

lemma handleSelectTrack_None:
  "\<not> linkingState s \<Longrightarrow> handleSelectTrack None False s = selectTrack None False (s\<lparr> creating := False \<rparr>)"
  by (simp add: handleSelectTrack_def Let_def leaveCreating_def mergeInProgress_def selectTrack_def)

text \<open>
  Claim C3. For every session state, \<open>handleEscapeMode\<close> completes and clears merge
  state, linking state and the selection; if the selected track on the current camera
  is empty (begin equals end and no feature is reported at that frame) it is removed
  from the store, and if it is not empty the store is left as it was.
\<close>

theorem handleEscapeMode_clears_and_removes_empty:
  "fst (handleEscapeMode deps s) = None
   \<and> mergeList (snd (handleEscapeMode deps s)) = []
   \<and> linkingState (snd (handleEscapeMode deps s)) = False
   \<and> linkingCamera (snd (handleEscapeMode deps s)) = []
   \<and> linkingTrack (snd (handleEscapeMode deps s)) = None
   \<and> selectedTrackId (snd (handleEscapeMode deps s)) = None
   \<and> editingTrack (snd (handleEscapeMode deps s)) = False
   \<and> (\<forall>tid track.
         selectedTrackId s = Some tid
         \<and> getPossibleTrack (camMap (store s)) tid (selectedCamera s) = Some track \<longrightarrow>
         (if emptyOnCamera deps track
          then removeTrack tid True (selectedCamera s) (store s)
                 = Inr (store (snd (handleEscapeMode deps s)))
               \<and> getPossibleTrack (camMap (store (snd (handleEscapeMode deps s)))) tid
                    (selectedCamera s) = None
          else store (snd (handleEscapeMode deps s)) = store s))"
proof (cases "selectedTrackId s")
  case None
  then show ?thesis
    by (simp add: handleEscapeMode_def handleSelectTrack_None selectTrack_def)
next
  case (Some tid)
  show ?thesis
  proof (cases "getPossibleTrack (camMap (store s)) tid (selectedCamera s)")
    case None
    with Some show ?thesis
      by (simp add: handleEscapeMode_def handleSelectTrack_None selectTrack_def)
  next
    case (Some track)
    note tr = this
    show ?thesis
    proof (cases "emptyOnCamera deps track")
      case True
      from removeTrackS_present [OF tr, of True]
      obtain st where st: "removeTrack tid True (selectedCamera s) (store s) = Inr st"
        "removeTrackS tid True (selectedCamera s) s = (None, s\<lparr> store := st \<rparr>)"
        "getPossibleTrack (camMap st) tid (selectedCamera s) = None"
        by blast
      from True have e: "begin_frame track = end_frame track"
        "filter (\<lambda>item. item \<noteq> None) (getFeature deps track (end_frame track)) = []"
        by (auto simp: emptyOnCamera_def)
      show ?thesis
        using \<open>selectedTrackId s = Some tid\<close> tr True st e
        by (simp add: handleEscapeMode_def handleSelectTrack_None selectTrack_def Let_def)
    next
      case False
      then show ?thesis
        using \<open>selectedTrackId s = Some tid\<close> tr
        by (auto simp: handleEscapeMode_def handleSelectTrack_None selectTrack_def Let_def
            emptyOnCamera_def)
    qed
  qed
qed

text \<open>
  Escape with the featureless track 0 selected removes it; with a track that has a
  keyframe selected, the store stays as it is.
\<close>

theorem handleEscapeMode_witness:
  "selectedTrackId (session []) = Some 0
   \<and> getPossibleTrack (camMap (store (session []))) 0 (selectedCamera (session []))
       = Some (newTrack 0 5 ''foo'')
   \<and> emptyOnCamera simpleDeps (newTrack 0 5 ''foo'')
   \<and> getPossibleTrack (camMap (store (snd (handleEscapeMode simpleDeps (session [])))))
         0 (selectedCamera (session [])) = None
   \<and> selectedTrackId sessionF = Some 0
   \<and> getPossibleTrack (camMap (store sessionF)) 0 (selectedCamera sessionF) = Some trackF
   \<and> \<not> emptyOnCamera simpleDeps trackF
   \<and> store (snd (handleEscapeMode simpleDeps sessionF)) = store sessionF
   \<and> selectedTrackId (snd (handleEscapeMode simpleDeps sessionF)) = None"
proof -
  have a: "selectedTrackId (session []) = Some 0
      \<and> getPossibleTrack (camMap (store (session []))) 0 (selectedCamera (session []))
          = Some (newTrack 0 5 ''foo'')"
    by (simp add: session_def initialState_def storeOne_def getPossibleTrack_def)
  have b: "emptyOnCamera simpleDeps (newTrack 0 5 ''foo'')"
    by (simp add: emptyOnCamera_def simpleDeps_def newTrack_def)
  have c: "selectedTrackId sessionF = Some 0
      \<and> getPossibleTrack (camMap (store sessionF)) 0 (selectedCamera sessionF) = Some trackF"
    by (simp add: sessionF_def initialState_def storeFeat_def getPossibleTrack_def)
  have d: "\<not> emptyOnCamera simpleDeps trackF"
    by (simp add: emptyOnCamera_def simpleDeps_def trackF_def newTrack_def)
  from handleEscapeMode_clears_and_removes_empty [of simpleDeps "session []"] a b
  have e: "getPossibleTrack (camMap (store (snd (handleEscapeMode simpleDeps (session [])))))
         0 (selectedCamera (session [])) = None"
    by (elim conjE) (drule spec [of _ 0], drule spec [of _ "newTrack 0 5 ''foo''"], simp)
  from handleEscapeMode_clears_and_removes_empty [of simpleDeps sessionF] c d
  have f: "store (snd (handleEscapeMode simpleDeps sessionF)) = store sessionF
      \<and> selectedTrackId (snd (handleEscapeMode simpleDeps sessionF)) = None"
    by (elim conjE) (drule spec [of _ 0], drule spec [of _ trackF], simp)
  from a b c d e f show ?thesis by simp
qed

section \<open>Geometry updates: collecting the recipes' changes\<close>

lemma objectAssign_keys:
  "fst ` set (objectAssign target source) = fst ` set target \<union> fst ` set source"
  unfolding objectAssign_def
proof (induction source arbitrary: target)
  case Nil
  then show ?case by simp
next
  case (Cons p source)
  obtain k v where p: "p = (k, v)" by (cases p)
  have "fst ` set (AList.update k v target) = {k} \<union> fst ` set target"
    by (rule dom_update)
  with Cons [of "AList.update k v target"] show ?case
    by (auto simp: p)
qed

lemma objectAssign_Nil: "(objectAssign target source = []) = (target = [] \<and> source = [])"
proof -
  have "fst ` set (objectAssign target source) = {} \<longleftrightarrow> target = [] \<and> source = []"
    unfolding objectAssign_keys by auto
  then show ?thesis by auto
qed

lemma applyChanges_Inl: "applyChanges n c upd = Inl e \<Longrightarrow> isConflict e"
  by (auto simp: applyChanges_def Let_def isConflict_def split: option.splits if_splits sum.splits)

lemma applyChanges_eq:
  "applyChanges n c upd =
     (if clash c upd
      then Inl (case find (\<lambda>k. keyIn k (up_geoJsonFeatureRecord upd)) (map fst (ch_data c)) of
                  Some k \<Rightarrow> OverwriteKey n k
                | None \<Rightarrow> if ch_newType c \<noteq> None \<and> up_newType upd \<noteq> None
                          then TypeAlreadySet n else SelectedKeyAlreadySet n)
      else Inr (absorb c upd))"
proof (cases "find (\<lambda>k. keyIn k (up_geoJsonFeatureRecord upd)) (map fst (ch_data c))")
  case None
  then have nk: "\<not> (\<exists>k \<in> keysOf c. keyIn k (up_geoJsonFeatureRecord upd))"
    by (auto simp: find_None_iff keysOf_def)
  show ?thesis
    using None nk
    by (cases "ch_newType c"; cases "up_newType upd")
       (simp_all add: applyChanges_def Let_def clash_def absorb_def)
next
  case (Some k)
  then have "\<exists>k \<in> keysOf c. keyIn k (up_geoJsonFeatureRecord upd)"
    by (auto simp: find_Some_iff keysOf_def)
  with Some show ?thesis
    by (simp add: applyChanges_def clash_def)
qed


lemma conflicting_sym: "conflicting a b = conflicting b a"
  by (auto simp: conflicting_def)

lemma keyIn_objectAssign:
  "keyIn k (objectAssign target source) = (keyIn k target \<or> k \<in> fst ` set source)"
  by (auto simp: keyIn_def objectAssign_keys)

lemma truthy_Some: "truthy v = (\<exists>k. v = Some k \<and> k \<noteq> [])"
  by (cases v) (simp_all add: truthy_def)

lemma clash_absorb: "clash c' (absorb c upd) = (clash c' upd \<or> conflicting c c')"
proof -
  have keys: "(\<exists>k \<in> keysOf c'. keyIn k (up_geoJsonFeatureRecord (absorb c upd)))
      = ((\<exists>k \<in> keysOf c'. keyIn k (up_geoJsonFeatureRecord upd)) \<or> keysOf c \<inter> keysOf c' \<noteq> {})"
    unfolding absorb_def keysOf_def by (simp add: keyIn_objectAssign) (force simp: image_iff)
  have ty: "(up_newType (absorb c upd) \<noteq> None) = (ch_newType c \<noteq> None \<or> up_newType upd \<noteq> None)"
    by (cases "ch_newType c") (simp_all add: absorb_def)
  have ky: "truthy (up_newSelectedKey (absorb c upd))
      = (truthy (ch_newSelectedKey c) \<or> truthy (up_newSelectedKey upd))"
    by (simp add: absorb_def)
  show ?thesis
    unfolding clash_def conflicting_def keys ty ky by blast
qed

lemma forEachRecipe_Inl:
  "forEachRecipe rs ev fr tr d key upd = Inl e \<Longrightarrow> isConflict e"
proof (induction rs arbitrary: upd)
  case Nil
  then show ?case by simp
next
  case (Cons r rs)
  then show ?case
    by (auto split: sum.splits dest: applyChanges_Inl)
qed

lemma forEachRecipe_Inr:
  "forEachRecipe rs ev fr tr d key upd = Inr upd' \<Longrightarrow>
     sorted_wrt (\<lambda>a b. \<not> conflicting a b) (map (\<lambda>r. recipe_update r ev fr tr [d] key) rs)
     \<and> (\<forall>r \<in> set rs. \<not> clash (recipe_update r ev fr tr [d] key) upd)
     \<and> upd' = fold absorb (map (\<lambda>r. recipe_update r ev fr tr [d] key) rs) upd"
proof (induction rs arbitrary: upd)
  case Nil
  then show ?case by simp
next
  case (Cons r rs)
  let ?c = "recipe_update r ev fr tr [d] key"
  from Cons.prems have nc: "\<not> clash ?c upd"
    and rest: "forEachRecipe rs ev fr tr d key (absorb ?c upd) = Inr upd'"
    by (auto simp: applyChanges_eq split: if_splits)
  from Cons.IH [OF rest] nc show ?case
    by (auto simp: clash_absorb)
qed

lemma somethingChanged_absorb:
  "somethingChanged (absorb c upd) = (somethingChanged upd \<or> contributes c)"
  by (auto simp: somethingChanged_def absorb_def contributes_def objectAssign_Nil)

lemma somethingChanged_fold:
  "somethingChanged (fold absorb cs upd) = (somethingChanged upd \<or> (\<exists>c \<in> set cs. contributes c))"
  by (induction cs arbitrary: upd) (auto simp: somethingChanged_absorb)

lemma fold_absorb_newType:
  "sorted_wrt (\<lambda>a b. \<not> conflicting a b) cs \<Longrightarrow> \<forall>c \<in> set cs. \<not> clash c upd \<Longrightarrow>
   (up_newType (fold absorb cs upd) = Some ty)
     = (up_newType upd = Some ty \<or> (\<exists>c \<in> set cs. ch_newType c = Some ty))"
proof (induction cs arbitrary: upd)
  case Nil
  then show ?case by simp
next
  case (Cons c cs)
  have "\<forall>c' \<in> set cs. \<not> clash c' (absorb c upd)"
    using Cons.prems by (auto simp: clash_absorb)
  with Cons have "(up_newType (fold absorb cs (absorb c upd)) = Some ty)
     = (up_newType (absorb c upd) = Some ty \<or> (\<exists>c \<in> set cs. ch_newType c = Some ty))"
    by simp
  moreover have "(up_newType (absorb c upd) = Some ty) = (up_newType upd = Some ty \<or> ch_newType c = Some ty)"
    using Cons.prems(2) by (cases "ch_newType c") (auto simp: absorb_def clash_def)
  ultimately show ?case by auto
qed

lemma fold_absorb_newSelectedKey:
  "sorted_wrt (\<lambda>a b. \<not> conflicting a b) cs \<Longrightarrow> \<forall>c \<in> set cs. \<not> clash c upd \<Longrightarrow> k \<noteq> [] \<Longrightarrow>
   (up_newSelectedKey (fold absorb cs upd) = Some k)
     = (up_newSelectedKey upd = Some k \<or> (\<exists>c \<in> set cs. ch_newSelectedKey c = Some k))"
proof (induction cs arbitrary: upd)
  case Nil
  then show ?case by simp
next
  case (Cons c cs)
  have "\<forall>c' \<in> set cs. \<not> clash c' (absorb c upd)"
    using Cons.prems by (auto simp: clash_absorb)
  with Cons have "(up_newSelectedKey (fold absorb cs (absorb c upd)) = Some k)
     = (up_newSelectedKey (absorb c upd) = Some k \<or> (\<exists>c \<in> set cs. ch_newSelectedKey c = Some k))"
    by simp
  moreover have "(up_newSelectedKey (absorb c upd) = Some k)
     = (up_newSelectedKey upd = Some k \<or> ch_newSelectedKey c = Some k)"
    using Cons.prems(2,3) by (auto simp: absorb_def clash_def truthy_Some)
  ultimately show ?case by auto
qed

lemma fold_absorb_truthy:
  "truthy (up_newSelectedKey (fold absorb cs upd))
     = (truthy (up_newSelectedKey upd) \<or> (\<exists>c \<in> set cs. truthy (ch_newSelectedKey c)))"
  by (induction cs arbitrary: upd) (auto simp: absorb_def)

lemma fold_absorb_newType_None:
  "(up_newType (fold absorb cs upd) = None)
     = (up_newType upd = None \<and> (\<forall>c \<in> set cs. ch_newType c = None))"
  by (induction cs arbitrary: upd) (auto simp: absorb_def split: option.splits)

lemma handleUpdateGeoJSON_Inl:
  assumes "selectedTrackId s = Some tid"
    and "getPossibleTrack (camMap (store s)) tid (selectedCamera s) = Some track"
    and "forEachRecipe (recipes s) ev fr track d key emptyUpdate = Inl e"
  shows "handleUpdateGeoJSON deps ev fr fl d key pi s = (Some e, s)"
  using assms by (simp add: handleUpdateGeoJSON_def)

lemma handleUpdateGeoJSON_Inr:
  assumes "selectedTrackId s = Some tid"
    and "getPossibleTrack (camMap (store s)) tid (selectedCamera s) = Some track"
    and "forEachRecipe (recipes s) ev fr track d key emptyUpdate = Inr upd"
  shows "handleUpdateGeoJSON deps ev fr fl d key pi s =
     (if somethingChanged upd then
        (if ev = editing \<or> list_all (\<lambda>v. v \<noteq> Some False) (up_done upd)
         then newTrackSettingsAfterLogic deps
                ((applyModeSwitch pi upd s)\<lparr> store :=
                    replaceTrack (selectedCamera (applyModeSwitch pi upd s)) tid track
                      (updatedTrack deps track fr fl upd) (store (applyModeSwitch pi upd s)) \<rparr>)
         else (None, (applyModeSwitch pi upd s)\<lparr> store :=
                    replaceTrack (selectedCamera (applyModeSwitch pi upd s)) tid track
                      (updatedTrack deps track fr fl upd) (store (applyModeSwitch pi upd s)) \<rparr>))
      else (None, applyModeSwitch pi upd s))"
  using assms by (simp add: handleUpdateGeoJSON_def Let_def)

lemma session_track:
  "selectedTrackId (session rs) = Some 0"
  "getPossibleTrack (camMap (store (session rs))) 0 (selectedCamera (session rs)) = Some (newTrack 0 5 ''foo'')"
  "recipes (session rs) = rs"
  by (simp_all add: session_def initialState_def storeOne_def getPossibleTrack_def)

lemma handleAddTrackOrDetection_fields:
  "selectedKey (snd (handleAddTrackOrDetection ov s)) = selectedKey s"
  "annotationModes_editing (snd (handleAddTrackOrDetection ov s)) = annotationModes_editing s"
  "recipes (snd (handleAddTrackOrDetection ov s)) = recipes s"
  "preventInterruptCalls (snd (handleAddTrackOrDetection ov s)) = preventInterruptCalls s"
  by (auto simp: handleAddTrackOrDetection_def Let_def selectTrack_def
      split: sum.splits option.splits list.splits prod.splits)

lemma newTrackSettingsAfterLogic_fields:
  "selectedKey (snd (newTrackSettingsAfterLogic deps s)) = selectedKey s"
  "annotationModes_editing (snd (newTrackSettingsAfterLogic deps s)) = annotationModes_editing s"
  "recipes (snd (newTrackSettingsAfterLogic deps s)) = recipes s"
  "preventInterruptCalls (snd (newTrackSettingsAfterLogic deps s)) = preventInterruptCalls s"
proof -
  obtain r s1 where h: "handleAddTrackOrDetection None s = (r, s1)"
    by (cases "handleAddTrackOrDetection None s")
  with handleAddTrackOrDetection_fields [of None s]
  have f: "selectedKey s1 = selectedKey s" "annotationModes_editing s1 = annotationModes_editing s"
    "recipes s1 = recipes s" "preventInterruptCalls s1 = preventInterruptCalls s"
    by simp_all
  show "selectedKey (snd (newTrackSettingsAfterLogic deps s)) = selectedKey s"
    "annotationModes_editing (snd (newTrackSettingsAfterLogic deps s)) = annotationModes_editing s"
    "recipes (snd (newTrackSettingsAfterLogic deps s)) = recipes s"
    "preventInterruptCalls (snd (newTrackSettingsAfterLogic deps s)) = preventInterruptCalls s"
    using h f
    by (auto simp: newTrackSettingsAfterLogic_def Let_def nudgeEditingCanary_def split: sum.splits)
qed

lemma applyModeSwitch_fields [simp]:
  "store (applyModeSwitch pi upd s) = store s"
  "selectedTrackId (applyModeSwitch pi upd s) = selectedTrackId s"
  "selectedCamera (applyModeSwitch pi upd s) = selectedCamera s"
  "editingTrack (applyModeSwitch pi upd s) = editingTrack s"
  "creating (applyModeSwitch pi upd s) = creating s"
  "editingCanary (applyModeSwitch pi upd s) = editingCanary s"
  "current_frame (applyModeSwitch pi upd s) = current_frame s"
  by (simp_all add: applyModeSwitch_def Let_def split: option.splits)

section \<open>Geometry updates: conflicts\<close>

text \<open>
  Claim C1, amended. For every geometry update on a selected track that is present on
  the current camera, if two recipes write the same key into data, or both set
  \<open>newType\<close>, or both set a non-empty \<open>newSelectedKey\<close>, then the update throws one of
  the conflict errors and the whole session state, the track included, is as before.
\<close>

theorem handleUpdateGeoJSON_conflict_aborts:
  assumes "selectedTrackId s = Some tid"
    and "getPossibleTrack (camMap (store s)) tid (selectedCamera s) = Some track"
    and "i < j" and "j < length (recipes s)"
    and "conflicting (recipeChanges s ev fr track d key ! i) (recipeChanges s ev fr track d key ! j)"
  shows "\<exists>e. handleUpdateGeoJSON deps ev fr fl d key pi s = (Some e, s) \<and> isConflict e"
proof (cases "forEachRecipe (recipes s) ev fr track d key emptyUpdate")
  case (Inl e)
  from handleUpdateGeoJSON_Inl [OF assms(1,2) Inl] forEachRecipe_Inl [OF Inl]
  show ?thesis by blast
next
  case (Inr upd)
  from forEachRecipe_Inr [OF Inr]
  have "sorted_wrt (\<lambda>a b. \<not> conflicting a b) (recipeChanges s ev fr track d key)"
    by (simp add: recipeChanges_def)
  with assms(3,4) have "\<not> conflicting (recipeChanges s ev fr track d key ! i) (recipeChanges s ev fr track d key ! j)"
    by (simp add: sorted_wrt_iff_nth_less recipeChanges_def)
  with assms(5) show ?thesis by contradiction
qed

text \<open>Two recipes that both set the type: the second one is refused, nothing is written.\<close>

theorem handleUpdateGeoJSON_conflict_witness:
  "selectedTrackId (session typeRecipes) = Some 0
   \<and> getPossibleTrack (camMap (store (session typeRecipes))) 0 (selectedCamera (session typeRecipes))
        = Some (newTrack 0 5 ''foo'')
   \<and> (0::nat) < 1 \<and> 1 < length (recipes (session typeRecipes))
   \<and> conflicting (recipeChanges (session typeRecipes) editing 5 (newTrack 0 5 ''foo'') aShape None ! 0)
        (recipeChanges (session typeRecipes) editing 5 (newTrack 0 5 ''foo'') aShape None ! 1)
   \<and> (\<exists>e. handleUpdateGeoJSON simpleDeps editing 5 0 aShape None False (session typeRecipes)
            = (Some e, session typeRecipes) \<and> isConflict e)"
proof -
  have h3: "(0::nat) < 1" by simp
  have h4: "1 < length (recipes (session typeRecipes))"
    by (simp add: session_track typeRecipes_def)
  have h5: "conflicting (recipeChanges (session typeRecipes) editing 5 (newTrack 0 5 ''foo'') aShape None ! 0)
        (recipeChanges (session typeRecipes) editing 5 (newTrack 0 5 ''foo'') aShape None ! 1)"
    by (simp add: recipeChanges_def session_track typeRecipes_def constRecipe_def noChanges_def
        conflicting_def)
  from handleUpdateGeoJSON_conflict_aborts [OF session_track(1) session_track(2) h3 h4 h5]
  show ?thesis using h4 h5 by (simp add: session_track)
qed

text \<open>
  Claim C1 as stated fails where the key is the empty string: two recipes that both
  return \<open>newSelectedKey: ''\<close> do not make the update fail.
\<close>

theorem handleUpdateGeoJSON_empty_keys_no_conflict:
  "ch_newSelectedKey (recipe_update (emptyKeyRecipes ! 0) editing 5 (newTrack 0 5 ''foo'') [aShape] None) \<noteq> None
   \<and> ch_newSelectedKey (recipe_update (emptyKeyRecipes ! 1) editing 5 (newTrack 0 5 ''foo'') [aShape] None) \<noteq> None
   \<and> fst (handleUpdateGeoJSON simpleDeps editing 5 0 aShape None False (session emptyKeyRecipes)) = None"
  by (simp add: handleUpdateGeoJSON_def session_track emptyKeyRecipes_def constRecipe_def
      noChanges_def applyChanges_def emptyUpdate_def Let_def truthy_def objectAssign_def
      somethingChanged_def)

section \<open>Geometry updates: nothing changed\<close>

text \<open>
  Claim C10. For every geometry update on a selected track present on the current
  camera, if every recipe returns empty data, union and unionWithoutBounds, then the
  store, and with it the track's features, is not written, and the post-add-advance
  logic does not run: the editing canary it nudges, the creating flag, the playback
  frame and the selection are as before, whatever the event type. The callback is not
  invoked, and the only possible failure is a conflict.
\<close>

theorem handleUpdateGeoJSON_nothing_changed:
  assumes "selectedTrackId s = Some tid"
    and "getPossibleTrack (camMap (store s)) tid (selectedCamera s) = Some track"
    and "\<forall>c \<in> set (recipeChanges s ev fr track d key). \<not> contributes c"
  shows "store (snd (handleUpdateGeoJSON deps ev fr fl d key pi s)) = store s
    \<and> editingCanary (snd (handleUpdateGeoJSON deps ev fr fl d key pi s)) = editingCanary s
    \<and> creating (snd (handleUpdateGeoJSON deps ev fr fl d key pi s)) = creating s
    \<and> current_frame (snd (handleUpdateGeoJSON deps ev fr fl d key pi s)) = current_frame s
    \<and> selectedTrackId (snd (handleUpdateGeoJSON deps ev fr fl d key pi s)) = selectedTrackId s
    \<and> editingTrack (snd (handleUpdateGeoJSON deps ev fr fl d key pi s)) = editingTrack s
    \<and> preventInterruptCalls (snd (handleUpdateGeoJSON deps ev fr fl d key pi s)) = preventInterruptCalls s
    \<and> (case fst (handleUpdateGeoJSON deps ev fr fl d key pi s) of
          None \<Rightarrow> True | Some e \<Rightarrow> isConflict e)"
proof (cases "forEachRecipe (recipes s) ev fr track d key emptyUpdate")
  case (Inl e)
  from handleUpdateGeoJSON_Inl [OF assms(1,2) Inl] forEachRecipe_Inl [OF Inl]
  show ?thesis by simp
next
  case (Inr upd)
  from forEachRecipe_Inr [OF Inr]
  have "upd = fold absorb (recipeChanges s ev fr track d key) emptyUpdate"
    by (simp add: recipeChanges_def)
  with assms(3) have nc: "\<not> somethingChanged upd"
    by (simp add: somethingChanged_fold) (simp add: somethingChanged_def emptyUpdate_def)
  have "handleUpdateGeoJSON deps ev fr fl d key pi s = (None, applyModeSwitch pi upd s)"
    using handleUpdateGeoJSON_Inr [OF assms(1,2) Inr] nc by simp
  moreover have "preventInterruptCalls (applyModeSwitch pi upd s) = preventInterruptCalls s"
    using nc by (simp add: applyModeSwitch_def Let_def split: option.splits)
  ultimately show ?thesis by simp
qed

theorem handleUpdateGeoJSON_nothing_changed_witness:
  "selectedTrackId (session [constRecipe ''A'' noChanges]) = Some 0
   \<and> getPossibleTrack (camMap (store (session [constRecipe ''A'' noChanges]))) 0
        (selectedCamera (session [constRecipe ''A'' noChanges])) = Some (newTrack 0 5 ''foo'')
   \<and> recipeChanges (session [constRecipe ''A'' noChanges]) editing 5
        (newTrack 0 5 ''foo'') aShape None = [noChanges]
   \<and> \<not> contributes noChanges
   \<and> store (snd (handleUpdateGeoJSON simpleDeps editing 5 0 aShape None True
                   (session [constRecipe ''A'' noChanges])))
       = store (session [constRecipe ''A'' noChanges])
   \<and> editingCanary (snd (handleUpdateGeoJSON simpleDeps editing 5 0 aShape None True
                   (session [constRecipe ''A'' noChanges])))
       = editingCanary (session [constRecipe ''A'' noChanges])"
proof -
  have c: "recipeChanges (session [constRecipe ''A'' noChanges]) editing 5
        (newTrack 0 5 ''foo'') aShape None = [noChanges]"
    by (simp add: recipeChanges_def session_track constRecipe_def)
  have n: "\<not> contributes noChanges"
    by (simp add: noChanges_def contributes_def)
  have h3: "\<forall>c \<in> set (recipeChanges (session [constRecipe ''A'' noChanges]) editing 5
                    (newTrack 0 5 ''foo'') aShape None). \<not> contributes c"
    by (simp add: c n)
  from handleUpdateGeoJSON_nothing_changed [OF session_track(1) session_track(2) h3]
  show ?thesis using c n by (simp add: session_track)
qed

section \<open>Geometry updates: mode switch or prevented interrupt\<close>

lemma handleUpdateGeoJSON_no_error:
  assumes "selectedTrackId s = Some tid"
    and "getPossibleTrack (camMap (store s)) tid (selectedCamera s) = Some track"
    and "fst (handleUpdateGeoJSON deps ev fr fl d key pi s) = None"
  shows "\<exists>upd. forEachRecipe (recipes s) ev fr track d key emptyUpdate = Inr upd"
proof (cases "forEachRecipe (recipes s) ev fr track d key emptyUpdate")
  case (Inl e)
  from handleUpdateGeoJSON_Inl [OF assms(1,2) Inl, of deps fl pi] assms(3)
  show ?thesis by simp
next
  case (Inr upd)
  then show ?thesis by blast
qed

lemma handleUpdateGeoJSON_mode_fields:
  assumes "selectedTrackId s = Some tid"
    and "getPossibleTrack (camMap (store s)) tid (selectedCamera s) = Some track"
    and "forEachRecipe (recipes s) ev fr track d key emptyUpdate = Inr upd"
  shows "selectedKey (snd (handleUpdateGeoJSON deps ev fr fl d key pi s))
           = selectedKey (applyModeSwitch pi upd s)"
    and "annotationModes_editing (snd (handleUpdateGeoJSON deps ev fr fl d key pi s))
           = annotationModes_editing (applyModeSwitch pi upd s)"
    and "recipes (snd (handleUpdateGeoJSON deps ev fr fl d key pi s))
           = recipes (applyModeSwitch pi upd s)"
    and "preventInterruptCalls (snd (handleUpdateGeoJSON deps ev fr fl d key pi s))
           = preventInterruptCalls (applyModeSwitch pi upd s)"
  unfolding handleUpdateGeoJSON_Inr [OF assms]
  by (simp_all add: newTrackSettingsAfterLogic_fields)

lemma forEach_shapeRecipe:
  "forEachRecipe [shapeRecipe] editing 5 (newTrack 0 5 ''foo'') aShape None emptyUpdate
     = Inr (absorb (noChanges\<lparr> ch_data := [(''k'', [aShape])] \<rparr>) emptyUpdate)"
  by (simp add: shapeRecipe_def constRecipe_def applyChanges_eq clash_def keysOf_def
      noChanges_def emptyUpdate_def keyIn_def objectPrototypeKeys_def truthy_def)

lemma forEach_shapeTypeRecipe:
  "forEachRecipe [shapeTypeRecipe] editing 5 (newTrack 0 5 ''foo'') aShape None emptyUpdate
     = Inr (absorb (noChanges\<lparr> ch_data := [(''k'', [aShape])], ch_newType := Some Polygon \<rparr>)
             emptyUpdate)"
  by (simp add: shapeTypeRecipe_def constRecipe_def applyChanges_eq clash_def keysOf_def
      noChanges_def emptyUpdate_def keyIn_def objectPrototypeKeys_def truthy_def)

lemma newTrackSettingsAfterLogic_not_creating:
  "\<not> creating s \<Longrightarrow> fst (newTrackSettingsAfterLogic deps s) = None"
  by (simp add: newTrackSettingsAfterLogic_def)

lemma update_shapeRecipe_ok:
  "fst (handleUpdateGeoJSON simpleDeps editing 5 0 aShape None pi (session [shapeRecipe])) = None"
  unfolding handleUpdateGeoJSON_Inr
    [OF session_track(1) session_track(2), of "[shapeRecipe]" editing 5 aShape None,
     unfolded session_track(3), OF forEach_shapeRecipe]
  by (simp add: newTrackSettingsAfterLogic_not_creating applyModeSwitch_fields session_def
      initialState_def)

lemma update_shapeTypeRecipe_ok:
  "fst (handleUpdateGeoJSON simpleDeps editing 5 0 aShape None pi (session [shapeTypeRecipe])) = None"
  unfolding handleUpdateGeoJSON_Inr
    [OF session_track(1) session_track(2), of "[shapeTypeRecipe]" editing 5 aShape None,
     unfolded session_track(3), OF forEach_shapeTypeRecipe]
  by (simp add: newTrackSettingsAfterLogic_not_creating applyModeSwitch_fields session_def
      initialState_def)

text \<open>
  Claim C5, amended. In a geometry update that completes and in which at least one
  recipe contributed a change: if no recipe set \<open>newType\<close> or a non-empty
  \<open>newSelectedKey\<close> and a \<open>preventInterrupt\<close> callback was supplied, the callback is
  invoked once and the editing type, the selected key and the recipes are left as they
  were; otherwise the callback is not invoked, the selected key becomes the non-empty
  key a recipe supplied (and stays if none did), and if a recipe supplied a type the
  editing type becomes that type and every recipe is deactivated, the one that changed
  the type included (the type and the recipes stay if none did).
\<close>

theorem handleUpdateGeoJSON_mode_switch:
  assumes "selectedTrackId s = Some tid"
    and "getPossibleTrack (camMap (store s)) tid (selectedCamera s) = Some track"
    and "fst (handleUpdateGeoJSON deps ev fr fl d key pi s) = None"
    and "\<exists>c \<in> set (recipeChanges s ev fr track d key). contributes c"
  shows "(if (\<forall>c \<in> set (recipeChanges s ev fr track d key). \<not> setsMode c) \<and> pi
          then preventInterruptCalls (snd (handleUpdateGeoJSON deps ev fr fl d key pi s))
                 = Suc (preventInterruptCalls s)
             \<and> selectedKey (snd (handleUpdateGeoJSON deps ev fr fl d key pi s)) = selectedKey s
             \<and> annotationModes_editing (snd (handleUpdateGeoJSON deps ev fr fl d key pi s))
                 = annotationModes_editing s
             \<and> recipes (snd (handleUpdateGeoJSON deps ev fr fl d key pi s)) = recipes s
          else preventInterruptCalls (snd (handleUpdateGeoJSON deps ev fr fl d key pi s))
                 = preventInterruptCalls s
             \<and> (\<forall>k. k \<noteq> [] \<and> (\<exists>c \<in> set (recipeChanges s ev fr track d key).
                                   ch_newSelectedKey c = Some k) \<longrightarrow>
                    selectedKey (snd (handleUpdateGeoJSON deps ev fr fl d key pi s)) = k)
             \<and> ((\<forall>c \<in> set (recipeChanges s ev fr track d key). \<not> truthy (ch_newSelectedKey c)) \<longrightarrow>
                    selectedKey (snd (handleUpdateGeoJSON deps ev fr fl d key pi s)) = selectedKey s)
             \<and> (\<forall>ty. (\<exists>c \<in> set (recipeChanges s ev fr track d key). ch_newType c = Some ty) \<longrightarrow>
                    annotationModes_editing (snd (handleUpdateGeoJSON deps ev fr fl d key pi s)) = ty
                    \<and> recipes (snd (handleUpdateGeoJSON deps ev fr fl d key pi s))
                        = map deactivate (recipes s))
             \<and> ((\<forall>c \<in> set (recipeChanges s ev fr track d key). ch_newType c = None) \<longrightarrow>
                    annotationModes_editing (snd (handleUpdateGeoJSON deps ev fr fl d key pi s))
                      = annotationModes_editing s
                    \<and> recipes (snd (handleUpdateGeoJSON deps ev fr fl d key pi s)) = recipes s))"
proof -
  let ?cs = "recipeChanges s ev fr track d key"
  from handleUpdateGeoJSON_no_error [OF assms(1,2,3)]
  obtain upd where fe: "forEachRecipe (recipes s) ev fr track d key emptyUpdate = Inr upd"
    by blast
  from forEachRecipe_Inr [OF fe]
  have sw: "sorted_wrt (\<lambda>a b. \<not> conflicting a b) ?cs"
    and ncl: "\<forall>c \<in> set ?cs. \<not> clash c emptyUpdate"
    and upd: "upd = fold absorb ?cs emptyUpdate"
    by (simp_all add: recipeChanges_def)
  have sc: "somethingChanged upd"
    using assms(4) unfolding upd somethingChanged_fold by simp
  have ty: "\<And>ty. (up_newType upd = Some ty) = (\<exists>c \<in> set ?cs. ch_newType c = Some ty)"
    unfolding upd using fold_absorb_newType [OF sw ncl] by (simp add: emptyUpdate_def)
  have tyN: "(up_newType upd = None) = (\<forall>c \<in> set ?cs. ch_newType c = None)"
    unfolding upd fold_absorb_newType_None by (simp add: emptyUpdate_def)
  have ky: "\<And>k. k \<noteq> [] \<Longrightarrow>
      (up_newSelectedKey upd = Some k) = (\<exists>c \<in> set ?cs. ch_newSelectedKey c = Some k)"
    unfolding upd using fold_absorb_newSelectedKey [OF sw ncl] by (simp add: emptyUpdate_def)
  have kyT: "truthy (up_newSelectedKey upd) = (\<exists>c \<in> set ?cs. truthy (ch_newSelectedKey c))"
    unfolding upd fold_absorb_truthy by (simp add: emptyUpdate_def truthy_def)
  note f = handleUpdateGeoJSON_mode_fields [OF assms(1,2) fe, of deps fl pi]
  show ?thesis
  proof (cases "(\<forall>c \<in> set ?cs. \<not> setsMode c) \<and> pi")
    case True
    then have "\<not> truthy (up_newSelectedKey upd)" "up_newType upd = None" pi
      by (auto simp: kyT tyN setsMode_def)
    with sc True show ?thesis
      unfolding f by (simp add: applyModeSwitch_def)
  next
    case False
    then have br: "\<not> (somethingChanged upd \<and> \<not> truthy (up_newSelectedKey upd)
        \<and> up_newType upd = None \<and> pi)"
      by (auto simp: kyT tyN setsMode_def)
    have k1: "selectedKey (applyModeSwitch pi upd s) = k"
      if "k \<noteq> []" and "\<exists>c \<in> set ?cs. ch_newSelectedKey c = Some k" for k
    proof -
      from that ky have uk: "up_newSelectedKey upd = Some k" by simp
      with br that(1) show ?thesis
        by (cases "up_newType upd") (simp_all add: applyModeSwitch_def truthy_def)
    qed
    have k2: "selectedKey (applyModeSwitch pi upd s) = selectedKey s"
      if "\<forall>c \<in> set ?cs. \<not> truthy (ch_newSelectedKey c)"
    proof -
      from that kyT have "\<not> truthy (up_newSelectedKey upd)" by simp
      with br show ?thesis
        by (cases "up_newType upd"; cases "up_newSelectedKey upd")
           (simp_all add: applyModeSwitch_def truthy_def)
    qed
    have t1: "annotationModes_editing (applyModeSwitch pi upd s) = ty
        \<and> recipes (applyModeSwitch pi upd s) = map deactivate (recipes s)"
      if "\<exists>c \<in> set ?cs. ch_newType c = Some ty" for ty
    proof -
      from that ty have "up_newType upd = Some ty" by simp
      then show ?thesis
        by (cases "up_newSelectedKey upd") (simp_all add: applyModeSwitch_def)
    qed
    have t2: "annotationModes_editing (applyModeSwitch pi upd s) = annotationModes_editing s
        \<and> recipes (applyModeSwitch pi upd s) = recipes s"
      if "\<forall>c \<in> set ?cs. ch_newType c = None"
    proof -
      from that tyN have "up_newType upd = None" by simp
      then show ?thesis
        by (cases "up_newSelectedKey upd") (simp_all add: applyModeSwitch_def)
    qed
    have p: "preventInterruptCalls (applyModeSwitch pi upd s) = preventInterruptCalls s"
      using br
      by (cases "up_newType upd"; cases "up_newSelectedKey upd")
         (auto simp: applyModeSwitch_def)
    from False k1 k2 t1 t2 p show ?thesis
      unfolding f by (simp only: if_False) blast
  qed
qed

text \<open>
  With one recipe writing a shape and a callback supplied, the callback is invoked;
  when the recipe also sets the type Polygon, the editing type is switched instead.
\<close>

theorem handleUpdateGeoJSON_mode_switch_witness:
  "selectedTrackId (session [shapeRecipe]) = Some 0
   \<and> getPossibleTrack (camMap (store (session [shapeRecipe]))) 0
        (selectedCamera (session [shapeRecipe])) = Some (newTrack 0 5 ''foo'')
   \<and> fst (handleUpdateGeoJSON simpleDeps editing 5 0 aShape None True (session [shapeRecipe])) = None
   \<and> recipeChanges (session [shapeRecipe]) editing 5 (newTrack 0 5 ''foo'') aShape None
       = [noChanges\<lparr> ch_data := [(''k'', [aShape])] \<rparr>]
   \<and> contributes (noChanges\<lparr> ch_data := [(''k'', [aShape])] \<rparr>)
   \<and> \<not> setsMode (noChanges\<lparr> ch_data := [(''k'', [aShape])] \<rparr>)
   \<and> preventInterruptCalls (snd (handleUpdateGeoJSON simpleDeps editing 5 0 aShape None True
         (session [shapeRecipe]))) = 1
   \<and> fst (handleUpdateGeoJSON simpleDeps editing 5 0 aShape None True (session [shapeTypeRecipe])) = None
   \<and> recipeChanges (session [shapeTypeRecipe]) editing 5 (newTrack 0 5 ''foo'') aShape None
       = [noChanges\<lparr> ch_data := [(''k'', [aShape])], ch_newType := Some Polygon \<rparr>]
   \<and> annotationModes_editing (snd (handleUpdateGeoJSON simpleDeps editing 5 0 aShape None True
         (session [shapeTypeRecipe]))) = Polygon
   \<and> preventInterruptCalls (snd (handleUpdateGeoJSON simpleDeps editing 5 0 aShape None True
         (session [shapeTypeRecipe]))) = 0"
proof -
  have c1: "recipeChanges (session [shapeRecipe]) editing 5 (newTrack 0 5 ''foo'') aShape None
      = [noChanges\<lparr> ch_data := [(''k'', [aShape])] \<rparr>]"
    by (simp add: recipeChanges_def session_track shapeRecipe_def constRecipe_def)
  have c2: "recipeChanges (session [shapeTypeRecipe]) editing 5 (newTrack 0 5 ''foo'') aShape None
      = [noChanges\<lparr> ch_data := [(''k'', [aShape])], ch_newType := Some Polygon \<rparr>]"
    by (simp add: recipeChanges_def session_track shapeTypeRecipe_def constRecipe_def)
  have e1: "\<exists>c \<in> set (recipeChanges (session [shapeRecipe]) editing 5 (newTrack 0 5 ''foo'') aShape None).
         contributes c"
    by (simp add: c1 contributes_def)
  have e2: "\<exists>c \<in> set (recipeChanges (session [shapeTypeRecipe]) editing 5 (newTrack 0 5 ''foo'') aShape None).
         contributes c"
    by (simp add: c2 contributes_def)
  have p0: "preventInterruptCalls (session rs) = 0" for rs
    by (simp add: session_def initialState_def)
  from handleUpdateGeoJSON_mode_switch
      [OF session_track(1) session_track(2) update_shapeRecipe_ok e1, of True]
    handleUpdateGeoJSON_mode_switch
      [OF session_track(1) session_track(2) update_shapeTypeRecipe_ok e2, of True]
  show ?thesis
    by (simp add: c1 c2 session_track update_shapeRecipe_ok update_shapeTypeRecipe_ok p0
        setsMode_def noChanges_def contributes_def truthy_def)
qed

text \<open>
  Claim C5 as stated fails: the single, active recipe that changed the type is itself
  deactivated by the update.
\<close>

theorem handleUpdateGeoJSON_deactivates_type_changer:
  "recipe_active (recipes (session [shapeTypeRecipe]) ! 0)
   \<and> ch_newType (recipe_update (recipes (session [shapeTypeRecipe]) ! 0) editing 5
        (newTrack 0 5 ''foo'') [aShape] None) = Some Polygon
   \<and> contributes (recipe_update (recipes (session [shapeTypeRecipe]) ! 0) editing 5
        (newTrack 0 5 ''foo'') [aShape] None)
   \<and> fst (handleUpdateGeoJSON simpleDeps editing 5 0 aShape None False
            (session [shapeTypeRecipe])) = None
   \<and> \<not> recipe_active (recipes (snd (handleUpdateGeoJSON simpleDeps editing 5 0 aShape None False
            (session [shapeTypeRecipe]))) ! 0)"
proof -
  have "recipes (snd (handleUpdateGeoJSON simpleDeps editing 5 0 aShape None False
            (session [shapeTypeRecipe])))
      = map deactivate [shapeTypeRecipe]"
    unfolding handleUpdateGeoJSON_mode_fields
      [OF session_track(1) session_track(2), of "[shapeTypeRecipe]" editing 5 aShape None,
       unfolded session_track(3), OF forEach_shapeTypeRecipe]
    by (simp add: applyModeSwitch_def absorb_def noChanges_def emptyUpdate_def session_track
        somethingChanged_def objectAssign_def)
  then show ?thesis
    by (simp add: update_shapeTypeRecipe_ok session_track)
       (simp add: shapeTypeRecipe_def constRecipe_def noChanges_def contributes_def deactivate_def)
qed

section \<open>Committing a merge\<close>

lemma getTrackAll_simps:
  "getTrackAll [] y = []"
  "getTrackAll ((c, m) # cm) y =
     (case map_of m y of None \<Rightarrow> getTrackAll cm y | Some t \<Rightarrow> t # getTrackAll cm y)"
  unfolding getTrackAll_def by (simp_all add: List.map_filter_simps)

lemma removedEntries_simps:
  "removedEntries tid cam [] = []"
  "removedEntries tid cam ((c, m) # cm) =
     (if addressed cam c
      then (case map_of m tid of
              None \<Rightarrow> removedEntries tid cam cm
            | Some t \<Rightarrow> indexEntry tid t # removedEntries tid cam cm)
      else removedEntries tid cam cm)"
  by (simp_all add: removedEntries_def List.map_filter_simps split: option.splits)

lemma deleteFromCameras_simps:
  "deleteFromCameras tid cam [] = []"
  "deleteFromCameras tid cam ((c, m) # cm) =
     (if addressed cam c then (c, AList.delete tid m) else (c, m))
       # deleteFromCameras tid cam cm"
  by (simp_all add: deleteFromCameras_def)

lemma getPossibleTrack_simps:
  "getPossibleTrack [] y c' = None"
  "getPossibleTrack ((c, m) # cm) y c' =
     (if c = c' then map_of m y else getPossibleTrack cm y c')"
  by (simp_all add: getPossibleTrack_def)

lemma removedEntries_all:
  "removedEntries tid [] cm = map (indexEntry tid) (getTrackAll cm tid)"
proof (induction cm)
  case Nil
  show ?case by (simp add: removedEntries_simps getTrackAll_simps)
next
  case (Cons p cm)
  obtain c m where p: "p = (c, m)" by (cases p)
  from Cons show ?case
    by (cases "map_of m tid")
       (simp_all add: p removedEntries_simps getTrackAll_simps addressed_def)
qed

lemma getTrackAll_deleteFromCameras:
  "getTrackAll (deleteFromCameras x [] cm) y = (if x = y then [] else getTrackAll cm y)"
proof (induction cm)
  case Nil
  show ?case by (simp add: deleteFromCameras_simps getTrackAll_simps)
next
  case (Cons p cm)
  obtain c m where p: "p = (c, m)" by (cases p)
  show ?case
  proof (cases "x = y")
    case True
    with Cons show ?thesis
      by (simp add: p deleteFromCameras_simps getTrackAll_simps addressed_def delete_conv)
  next
    case False
    with Cons show ?thesis
      by (cases "map_of m y")
         (simp_all add: p deleteFromCameras_simps getTrackAll_simps addressed_def delete_conv)
  qed
qed

lemma getPossibleTrack_deleteFromCameras_other:
  "x \<noteq> y \<Longrightarrow> getPossibleTrack (deleteFromCameras x cam cm) y c = getPossibleTrack cm y c"
proof (induction cm)
  case Nil
  show ?case by (simp add: deleteFromCameras_simps)
next
  case (Cons p cm)
  obtain c' m where p: "p = (c', m)" by (cases p)
  from Cons show ?case
    by (simp add: p deleteFromCameras_simps getPossibleTrack_simps delete_conv)
qed

lemma getPossibleTrack_getTrackAll:
  "getPossibleTrack cm tid c = Some t \<Longrightarrow> getTrackAll cm tid \<noteq> []"
proof (induction cm)
  case Nil
  then show ?case by (simp add: getPossibleTrack_simps)
next
  case (Cons p cm)
  obtain c' m where p: "p = (c', m)" by (cases p)
  from Cons show ?case
    by (cases "map_of m tid")
       (auto simp: p getPossibleTrack_simps getTrackAll_simps split: if_splits)
qed

lemma removeTrackS_all:
  assumes "getTrackAll (camMap (store s)) tid \<noteq> []"
  shows "removeTrackS tid dn [] s =
     (None, s\<lparr> store := (store s)\<lparr> camMap := deleteFromCameras tid [] (camMap (store s)),
         intervalTree := foldr remove1 (removedEntries tid [] (camMap (store s)))
                           (intervalTree (store s)) \<rparr> \<rparr>)"
  using assms by (simp add: removeTrackS_def removeTrack_def Let_def removedEntries_all)

lemma removeTracks_all:
  assumes "distinct tids" and "\<forall>y \<in> set tids. getTrackAll (camMap (store s)) y \<noteq> []"
  shows "\<exists>st. removeTracks tids [] s = (None, s\<lparr> store := st \<rparr>)
     \<and> (\<forall>y \<in> set tids. getTrackAll (camMap st) y = [])
     \<and> (\<forall>x. x \<notin> set tids \<longrightarrow>
           getTrackAll (camMap st) x = getTrackAll (camMap (store s)) x
           \<and> (\<forall>c. getPossibleTrack (camMap st) x c = getPossibleTrack (camMap (store s)) x c))"
  using assms
proof (induction tids arbitrary: s)
  case Nil
  have "removeTracks [] [] s = (None, s\<lparr> store := store s \<rparr>)" by simp
  then show ?case by (intro exI [of _ "store s"]) simp
next
  case (Cons y tids)
  let ?st1 = "(store s)\<lparr> camMap := deleteFromCameras y [] (camMap (store s)),
         intervalTree := foldr remove1 (removedEntries y [] (camMap (store s)))
                           (intervalTree (store s)) \<rparr>"
  let ?s1 = "s\<lparr> store := ?st1 \<rparr>"
  from Cons.prems have r1: "removeTrackS y False [] s = (None, ?s1)"
    by (simp add: removeTrackS_all)
  have pre: "\<forall>x \<in> set tids. getTrackAll (camMap (store ?s1)) x \<noteq> []"
    using Cons.prems by (auto simp: getTrackAll_deleteFromCameras)
  from Cons.prems have "distinct tids" by simp
  from Cons.IH [OF this pre]
  obtain st where st: "removeTracks tids [] ?s1 = (None, ?s1\<lparr> store := st \<rparr>)"
    and gone: "\<forall>x \<in> set tids. getTrackAll (camMap st) x = []"
    and kept: "\<forall>x. x \<notin> set tids \<longrightarrow>
         getTrackAll (camMap st) x = getTrackAll (camMap (store ?s1)) x
         \<and> (\<forall>c. getPossibleTrack (camMap st) x c = getPossibleTrack (camMap (store ?s1)) x c)"
    by blast
  have run: "removeTracks (y # tids) [] s = (None, s\<lparr> store := st \<rparr>)"
    using r1 st by simp
  from Cons.prems have ynot: "y \<notin> set tids" by simp
  with kept have ygone: "getTrackAll (camMap st) y = []"
    by (simp add: getTrackAll_deleteFromCameras)
  have others: "getTrackAll (camMap st) x = getTrackAll (camMap (store s)) x
     \<and> (\<forall>c. getPossibleTrack (camMap st) x c = getPossibleTrack (camMap (store s)) x c)"
    if "x \<notin> set (y # tids)" for x
    using that kept
    by (simp add: getTrackAll_deleteFromCameras getPossibleTrack_deleteFromCameras_other)
  from run gone ygone others show ?case
    by (intro exI [of _ st]) auto
qed


lemma getTrack_Inr:
  "(getTrack cm tid cam = Inr t) = (getPossibleTrack cm tid cam = Some t)"
  by (simp add: getTrack_def split: option.splits)

lemma getTracks_Inr:
  "getTracks cm tids cam = Inr ts \<Longrightarrow> \<forall>y \<in> set tids. \<exists>t. getPossibleTrack cm y cam = Some t"
proof (induction tids arbitrary: ts)
  case Nil
  then show ?case by simp
next
  case (Cons y tids)
  then show ?case
    by (auto simp: getTrack_Inr split: sum.splits)
qed

lemma getPossibleTrack_replaceTrack:
  assumes "getPossibleTrack (camMap st) tid cam = Some old"
  shows "getPossibleTrack (camMap (replaceTrack cam tid old new st)) x c
     = (if c = cam \<and> x = tid then Some new else getPossibleTrack (camMap st) x c)"
proof -
  from assms obtain tm where tm: "map_of (camMap st) cam = Some tm"
    by (auto simp: getPossibleTrack_def split: option.splits)
  then show ?thesis
    by (simp add: replaceTrack_def getPossibleTrack_def trackMapOf_def update_conv)
qed

lemma handleSelectTrack_plain:
  "\<not> mergeInProgress s \<Longrightarrow> \<not> linkingState s \<Longrightarrow>
   handleSelectTrack tid False s = selectTrack tid False (leaveCreating tid False s)"
  by (cases tid) (simp_all add: handleSelectTrack_def Let_def mergeInProgress_def)

lemma getTracks_stray:
  "\<exists>y \<in> set tids. getPossibleTrack cm y cam = None \<Longrightarrow>
   \<exists>y \<in> set tids. getPossibleTrack cm y cam = None
      \<and> getTracks cm tids cam = Inl (TrackNotFound y cam)"
proof (induction tids)
  case Nil
  then show ?case by simp
next
  case (Cons x tids)
  show ?case
  proof (cases "getPossibleTrack cm x cam")
    case None
    then show ?thesis by (simp add: getTrack_def)
  next
    case (Some t)
    with Cons.prems have "\<exists>y \<in> set tids. getPossibleTrack cm y cam = None" by auto
    from Cons.IH [OF this] obtain y where "y \<in> set tids" "getPossibleTrack cm y cam = None"
      "getTracks cm tids cam = Inl (TrackNotFound y cam)" by blast
    with Some show ?thesis by (auto simp: getTrack_def)
  qed
qed

lemma handleCommitMerge_stray:
  assumes "2 \<le> length (mergeList s)"
    and "\<exists>y \<in> set (mergeList s). getPossibleTrack (camMap (store s)) y (selectedCamera s) = None"
  shows "\<exists>y \<in> set (mergeList s).
      getPossibleTrack (camMap (store s)) y (selectedCamera s) = None
      \<and> handleCommitMerge deps s = (Some (TrackNotFound y (selectedCamera s)), s)"
proof -
  from assms(1) obtain first others where ml: "mergeList s = first # others"
    by (cases "mergeList s") auto
  show ?thesis
  proof (cases "getPossibleTrack (camMap (store s)) first (selectedCamera s)")
    case None
    with assms(1) ml show ?thesis
      by (simp add: handleCommitMerge_def getTrack_def)
  next
    case (Some track)
    with assms(2) ml
    have "\<exists>y \<in> set others. getPossibleTrack (camMap (store s)) y (selectedCamera s) = None"
      by auto
    from getTracks_stray [OF this]
    obtain y where y: "y \<in> set others"
      "getPossibleTrack (camMap (store s)) y (selectedCamera s) = None"
      "getTracks (camMap (store s)) others (selectedCamera s)
         = Inl (TrackNotFound y (selectedCamera s))"
      by blast
    with assms(1) ml Some have "handleCommitMerge deps s
        = (Some (TrackNotFound y (selectedCamera s)), s)"
      by (simp add: handleCommitMerge_def getTrack_def)
    with y ml show ?thesis by auto
  qed
qed

lemma mergeSession_facts:
  "mergeList mergeSession = [0, 1]"
  "selectedCamera mergeSession = ''singleCam''"
  "linkingState mergeSession = False"
  "prompts mergeSession = []"
  "getTrack (camMap (store mergeSession)) 0 ''singleCam'' = Inr (newTrack 0 5 ''foo'')"
  "getTracks (camMap (store mergeSession)) [1] ''singleCam'' = Inr [newTrack 1 9 ''foo'']"
  by (simp_all add: mergeSession_def initialState_def storeThree_def getTrack_def
      getPossibleTrack_def)

text \<open>
  Claim C4, amended. \<open>handleCommitMerge\<close> with fewer than two merge candidates changes
  no state. With two or more distinct candidates that all have a track on the selected
  camera, and linking mode not active, it completes; the first candidate's track is
  replaced by the result of merging the other candidates' tracks into it, every other
  candidate is removed from all cameras, all other tracks stay, no prompt is shown,
  the merge list is emptied, and the id carried by the merged track is selected with
  editing off; that id is the first candidate whenever the store keeps the track under
  its own id and the merge keeps the id. With two or more candidates of which one has
  no track on the selected camera, it throws the NotFound error for such a candidate
  and changes no state.
\<close>

theorem handleCommitMerge_merges:
  "(length (mergeList s) < 2 \<longrightarrow> handleCommitMerge deps s = (None, s))
   \<and> (mergeList s = first # others \<and> others \<noteq> [] \<and> distinct (mergeList s)
       \<and> \<not> linkingState s
       \<and> getTrack (camMap (store s)) first (selectedCamera s) = Inr track
       \<and> getTracks (camMap (store s)) others (selectedCamera s) = Inr os \<longrightarrow>
         fst (handleCommitMerge deps s) = None
         \<and> getPossibleTrack (camMap (store (snd (handleCommitMerge deps s)))) first
              (selectedCamera s) = Some (merge deps track os)
         \<and> (\<forall>y \<in> set others. getTrackAll (camMap (store (snd (handleCommitMerge deps s)))) y = [])
         \<and> (\<forall>x c. x \<notin> set (first # others) \<longrightarrow>
               getPossibleTrack (camMap (store (snd (handleCommitMerge deps s)))) x c
                 = getPossibleTrack (camMap (store s)) x c)
         \<and> prompts (snd (handleCommitMerge deps s)) = prompts s
         \<and> mergeList (snd (handleCommitMerge deps s)) = []
         \<and> selectedTrackId (snd (handleCommitMerge deps s)) = Some (trackId (merge deps track os))
         \<and> editingTrack (snd (handleCommitMerge deps s)) = False
         \<and> (trackId track = first \<and> trackId (merge deps track os) = trackId track \<longrightarrow>
               selectedTrackId (snd (handleCommitMerge deps s)) = Some first))
   \<and> (2 \<le> length (mergeList s)
       \<and> (\<exists>y \<in> set (mergeList s).
             getPossibleTrack (camMap (store s)) y (selectedCamera s) = None) \<longrightarrow>
         (\<exists>y \<in> set (mergeList s).
             getPossibleTrack (camMap (store s)) y (selectedCamera s) = None
             \<and> handleCommitMerge deps s = (Some (TrackNotFound y (selectedCamera s)), s)))"
proof (intro conjI, goal_cases)
  case 1
  show ?case
    by (simp add: handleCommitMerge_def)
next
  case 2
  show ?case
  proof (rule impI)
  assume a: "mergeList s = first # others \<and> others \<noteq> [] \<and> distinct (mergeList s)
       \<and> \<not> linkingState s
       \<and> getTrack (camMap (store s)) first (selectedCamera s) = Inr track
       \<and> getTracks (camMap (store s)) others (selectedCamera s) = Inr os"
  let ?cam = "selectedCamera s"
  let ?merged = "merge deps track os"
  let ?s1 = "s\<lparr> store := replaceTrack ?cam first track ?merged (store s) \<rparr>"
  from a have ml: "mergeList s = first # others" and ne: "others \<noteq> []"
    and fn: "first \<notin> set others" and dist: "distinct others" and nl: "\<not> linkingState s"
    and g1: "getPossibleTrack (camMap (store s)) first ?cam = Some track"
    and g2: "getTracks (camMap (store s)) others ?cam = Inr os"
    by (auto simp: getTrack_Inr)
  note look = getPossibleTrack_replaceTrack [OF g1, of ?merged]
  have pres: "\<forall>y \<in> set others. getTrackAll (camMap (store ?s1)) y \<noteq> []"
  proof
    fix y assume y: "y \<in> set others"
    with getTracks_Inr [OF g2] obtain t where "getPossibleTrack (camMap (store s)) y ?cam = Some t"
      by blast
    moreover from y fn have "y \<noteq> first" by auto
    ultimately have "getPossibleTrack (camMap (store ?s1)) y ?cam = Some t"
      by (simp add: look)
    then show "getTrackAll (camMap (store ?s1)) y \<noteq> []"
      by (rule getPossibleTrack_getTrackAll)
  qed
  from removeTracks_all [OF dist pres]
  obtain st where rm: "removeTracks others [] ?s1 = (None, ?s1\<lparr> store := st \<rparr>)"
    and gone: "\<forall>y \<in> set others. getTrackAll (camMap st) y = []"
    and kept: "\<forall>x. x \<notin> set others \<longrightarrow>
         (\<forall>c. getPossibleTrack (camMap st) x c = getPossibleTrack (camMap (store ?s1)) x c)"
    by blast
  define pn where "pn = (case selectNextTrack deps ?s1 1 of
      Some n \<Rightarrow> Some n | None \<Rightarrow> selectNextTrack deps ?s1 (- 1))"
  have unstaged: "filter (\<lambda>tid. tid \<notin> set others) (first # others) = [first]"
    using fn by (simp add: filter_empty_conv)
  have hr: "handleRemoveTrack deps others True [] False ?s1
      = (None, selectTrack pn False (handleUnstageFromMerge others (?s1\<lparr> store := st \<rparr>)))"
    using rm by (simp add: handleRemoveTrack_def Let_def pn_def)
  let ?s2 = "selectTrack pn False (handleUnstageFromMerge others (?s1\<lparr> store := st \<rparr>))"
  have s2: "mergeList ?s2 = [first]" "store ?s2 = st" "linkingState ?s2 = linkingState s"
    "prompts ?s2 = prompts s"
    using ml unstaged by (simp_all add: selectTrack_def handleUnstageFromMerge_def)
  let ?s3 = "handleToggleMerge ?s2"
  have s3: "mergeList ?s3 = []" "store ?s3 = st" "linkingState ?s3 = linkingState s"
    "prompts ?s3 = prompts s"
    using s2 by (simp_all add: handleToggleMerge_def mergeInProgress_def split: option.splits)
  have fin: "handleCommitMerge deps s
      = (None, handleSelectTrack (Some (trackId ?merged)) False ?s3)"
    using ml ne g1 g2 hr
    by (simp add: handleCommitMerge_def getTrack_def Let_def Suc_le_eq)
  have "\<not> mergeInProgress ?s3" "\<not> linkingState ?s3"
    using s3 nl by (simp_all add: mergeInProgress_def)
  then have sel: "handleSelectTrack (Some (trackId ?merged)) False ?s3
      = selectTrack (Some (trackId ?merged)) False
          (leaveCreating (Some (trackId ?merged)) False ?s3)"
    by (rule handleSelectTrack_plain)
  have res: "store (snd (handleCommitMerge deps s)) = st"
    "prompts (snd (handleCommitMerge deps s)) = prompts s"
    "mergeList (snd (handleCommitMerge deps s)) = []"
    "selectedTrackId (snd (handleCommitMerge deps s)) = Some (trackId ?merged)"
    "editingTrack (snd (handleCommitMerge deps s)) = False"
    "fst (handleCommitMerge deps s) = None"
    unfolding fin sel using s3
    by (simp_all add: selectTrack_def)
  show "fst (handleCommitMerge deps s) = None
         \<and> getPossibleTrack (camMap (store (snd (handleCommitMerge deps s)))) first
              (selectedCamera s) = Some (merge deps track os)
         \<and> (\<forall>y \<in> set others. getTrackAll (camMap (store (snd (handleCommitMerge deps s)))) y = [])
         \<and> (\<forall>x c. x \<notin> set (first # others) \<longrightarrow>
               getPossibleTrack (camMap (store (snd (handleCommitMerge deps s)))) x c
                 = getPossibleTrack (camMap (store s)) x c)
         \<and> prompts (snd (handleCommitMerge deps s)) = prompts s
         \<and> mergeList (snd (handleCommitMerge deps s)) = []
         \<and> selectedTrackId (snd (handleCommitMerge deps s)) = Some (trackId (merge deps track os))
         \<and> editingTrack (snd (handleCommitMerge deps s)) = False
         \<and> (trackId track = first \<and> trackId (merge deps track os) = trackId track \<longrightarrow>
               selectedTrackId (snd (handleCommitMerge deps s)) = Some first)"
    using gone kept fn by (simp add: res look)
  qed
next
  case 3
  show ?case
    using handleCommitMerge_stray [of s deps] by blast
qed

text \<open>
  Tracks 0 and 1 staged: track 0 absorbs the range of track 1 and is selected. One
  candidate staged: nothing happens. Track 1 staged on the left camera, which does not
  hold it: the commit throws NotFound for track 1 and the session is as before.
\<close>

theorem handleCommitMerge_witness:
  "mergeList mergeSession = [0, 1] \<and> distinct (mergeList mergeSession)
   \<and> \<not> linkingState mergeSession
   \<and> getTrack (camMap (store mergeSession)) 0 (selectedCamera mergeSession)
       = Inr (newTrack 0 5 ''foo'')
   \<and> getTracks (camMap (store mergeSession)) [1] (selectedCamera mergeSession)
       = Inr [newTrack 1 9 ''foo'']
   \<and> fst (handleCommitMerge orderedDeps mergeSession) = None
   \<and> getPossibleTrack (camMap (store (snd (handleCommitMerge orderedDeps mergeSession)))) 0
        ''singleCam'' = Some ((newTrack 0 5 ''foo'')\<lparr> end_frame := 9 \<rparr>)
   \<and> getTrackAll (camMap (store (snd (handleCommitMerge orderedDeps mergeSession)))) 1 = []
   \<and> mergeList (snd (handleCommitMerge orderedDeps mergeSession)) = []
   \<and> trackId (newTrack 0 5 ''foo'' :: (unit, unit) Track) = 0
   \<and> trackId (merge orderedDeps (newTrack 0 5 ''foo'') [newTrack 1 9 ''foo''])
       = trackId (newTrack 0 5 ''foo'' :: (unit, unit) Track)
   \<and> selectedTrackId (snd (handleCommitMerge orderedDeps mergeSession)) = Some 0
   \<and> editingTrack (snd (handleCommitMerge orderedDeps mergeSession)) = False
   \<and> length (mergeList (sessionA\<lparr> mergeList := [0] \<rparr>)) < 2
   \<and> handleCommitMerge orderedDeps (sessionA\<lparr> mergeList := [0] \<rparr>)
       = (None, sessionA\<lparr> mergeList := [0] \<rparr>)
   \<and> 2 \<le> length (mergeList strayMergeSession)
   \<and> getPossibleTrack (camMap (store strayMergeSession)) 1 (selectedCamera strayMergeSession)
       = None
   \<and> handleCommitMerge orderedDeps strayMergeSession
       = (Some (TrackNotFound 1 ''left''), strayMergeSession)"
proof -
  have m: "merge orderedDeps (newTrack 0 5 ''foo'') [newTrack 1 9 ''foo'']
      = (newTrack 0 5 ''foo'')\<lparr> end_frame := 9 \<rparr>"
    by (simp add: orderedDeps_def simpleDeps_def newTrack_def)
  have l: "length (mergeList (sessionA\<lparr> mergeList := [0] \<rparr>)) < 2"
    by simp
  have noop: "handleCommitMerge orderedDeps (sessionA\<lparr> mergeList := [0] \<rparr>)
      = (None, sessionA\<lparr> mergeList := [0] \<rparr>)"
    using handleCommitMerge_merges
      [of "sessionA\<lparr> mergeList := [0] \<rparr>" orderedDeps, THEN conjunct1] l
    by (rule mp)
  have prem: "mergeList mergeSession = 0 # [1] \<and> [1] \<noteq> ([] :: int list)
       \<and> distinct (mergeList mergeSession) \<and> \<not> linkingState mergeSession
       \<and> getTrack (camMap (store mergeSession)) 0 (selectedCamera mergeSession)
           = Inr (newTrack 0 5 ''foo'')
       \<and> getTracks (camMap (store mergeSession)) [1] (selectedCamera mergeSession)
           = Inr [newTrack 1 9 ''foo'']"
    using mergeSession_facts by simp
  have ids: "trackId (newTrack 0 5 ''foo'' :: (unit, unit) Track) = 0
       \<and> trackId (merge orderedDeps (newTrack 0 5 ''foo'') [newTrack 1 9 ''foo''])
           = trackId (newTrack 0 5 ''foo'' :: (unit, unit) Track)"
    by (simp add: m) (simp add: newTrack_def)
  note res = handleCommitMerge_merges
      [of mergeSession orderedDeps 0 "[1]" "newTrack 0 5 ''foo''" "[newTrack 1 9 ''foo'']",
       THEN conjunct2, THEN conjunct1, THEN mp, OF prem]
  from res ids have sel: "selectedTrackId (snd (handleCommitMerge orderedDeps mergeSession)) = Some 0"
    by blast
  from res [unfolded m] have d: "fst (handleCommitMerge orderedDeps mergeSession) = None"
    "getPossibleTrack (camMap (store (snd (handleCommitMerge orderedDeps mergeSession)))) 0
        (selectedCamera mergeSession) = Some ((newTrack 0 5 ''foo'')\<lparr> end_frame := 9 \<rparr>)"
    "getTrackAll (camMap (store (snd (handleCommitMerge orderedDeps mergeSession)))) 1 = []"
    "mergeList (snd (handleCommitMerge orderedDeps mergeSession)) = []"
    "editingTrack (snd (handleCommitMerge orderedDeps mergeSession)) = False"
    by simp_all
  have sf: "mergeList strayMergeSession = [0, 1]" "selectedCamera strayMergeSession = ''left''"
    "getPossibleTrack (camMap (store strayMergeSession)) 0 ''left'' = Some (newTrack 0 5 ''foo'')"
    "getPossibleTrack (camMap (store strayMergeSession)) 1 ''left'' = None"
    by (simp_all add: strayMergeSession_def initialState_def storeMulti_def getPossibleTrack_def)
  have sp: "2 \<le> length (mergeList strayMergeSession)
       \<and> (\<exists>y \<in> set (mergeList strayMergeSession).
             getPossibleTrack (camMap (store strayMergeSession)) y
               (selectedCamera strayMergeSession) = None)"
    by (simp add: sf)
  from handleCommitMerge_merges
      [of strayMergeSession orderedDeps, THEN conjunct2, THEN conjunct2, THEN mp, OF sp]
  obtain y where y: "y \<in> set (mergeList strayMergeSession)"
    "getPossibleTrack (camMap (store strayMergeSession)) y (selectedCamera strayMergeSession)
       = None"
    "handleCommitMerge orderedDeps strayMergeSession
       = (Some (TrackNotFound y (selectedCamera strayMergeSession)), strayMergeSession)"
    by blast
  from y(1,2) have "y = 1"
    by (auto simp: sf)
  with y(3) have stray: "handleCommitMerge orderedDeps strayMergeSession
       = (Some (TrackNotFound 1 ''left''), strayMergeSession)"
    by (simp add: sf)
  from prem ids sel d noop l sp sf stray show ?thesis
    by (simp add: mergeSession_facts(2))
qed

text \<open>
  Claim C4 as stated fails in two ways. With a candidate that has no track on the
  selected camera the commit throws and leaves the merge list and the store as they
  were. With linking mode active the merge is done, but the final selection is
  diverted to the link target: the neighbouring track 2 stays selected instead of the
  surviving track 0.
\<close>

theorem handleCommitMerge_stray_or_linking:
  "mergeList strayMergeSession = [0, 1]
   \<and> fst (handleCommitMerge orderedDeps strayMergeSession) = Some (TrackNotFound 1 ''left'')
   \<and> mergeList (snd (handleCommitMerge orderedDeps strayMergeSession)) = [0, 1]
   \<and> store (snd (handleCommitMerge orderedDeps strayMergeSession)) = store strayMergeSession
   \<and> mergeList (mergeSession\<lparr> linkingState := True \<rparr>) = [0, 1]
   \<and> fst (handleCommitMerge orderedDeps (mergeSession\<lparr> linkingState := True \<rparr>)) = None
   \<and> getPossibleTrack (camMap (store (snd (handleCommitMerge orderedDeps
        (mergeSession\<lparr> linkingState := True \<rparr>))))) 0 ''singleCam''
       = Some ((newTrack 0 5 ''foo'')\<lparr> end_frame := 9 \<rparr>)
   \<and> selectedTrackId (snd (handleCommitMerge orderedDeps
        (mergeSession\<lparr> linkingState := True \<rparr>))) = Some 2
   \<and> linkingTrack (snd (handleCommitMerge orderedDeps
        (mergeSession\<lparr> linkingState := True \<rparr>))) = Some 0"
proof -
  have stray: "handleCommitMerge orderedDeps strayMergeSession
      = (Some (TrackNotFound 1 ''left''), strayMergeSession)"
    by (simp add: handleCommitMerge_def strayMergeSession_def initialState_def storeMulti_def
        getTrack_def getPossibleTrack_def)
  have show_ints: "show_int 0 = ''0''" "show_int 1 = ''1''"
    by (simp_all add: show_int_def show_nat.simps digit_def)
  have link: "handleCommitMerge orderedDeps (mergeSession\<lparr> linkingState := True \<rparr>)
      = (None, mergeSession\<lparr> linkingState := True,
           store := \<lparr> camMap = [(''singleCam'',
               [(0, (newTrack 0 5 ''foo'')\<lparr> end_frame := 9 \<rparr>), (2, newTrack 2 12 ''foo'')])],
             intervalTree = [(12, 12, ''2''), (5, 9, ''0'')], nextTrackId = 3 \<rparr>,
           mergeList := [], selectedTrackId := Some 2, editingTrack := False,
           creating := False, linkingTrack := Some 0 \<rparr>)"
    by (simp add: handleCommitMerge_def mergeSession_def initialState_def storeThree_def
        getTrack_def getPossibleTrack_def orderedDeps_def simpleDeps_def newTrack_def
        replaceTrack_def trackMapOf_def indexEntry_def show_ints
        handleRemoveTrack_def Let_def removeTrackS_def removeTrack_def removedEntries_def
        deleteFromCameras_def addressed_def List.map_filter_simps AList.delete_eq
        handleUnstageFromMerge_def selectTrack_def handleToggleMerge_def mergeInProgress_def
        handleSelectTrack_def leaveCreating_def setLinkingTrack_def getTrackAll_def)
  show ?thesis
    unfolding stray link
    by (simp add: strayMergeSession_def getPossibleTrack_def mergeSession_def)
qed

end
